theory Spec2Isabelle
  imports Main
begin

section \<open>The module manager of types/module.go\<close>

text \<open>
  The embedding follows \<^verbatim>\<open>types/module.go\<close>. A Go interface value is a record of
  its methods. A method of a module may read and write state: the stores that the
  \<^verbatim>\<open>Context\<close> it is given refers to (the manager hands the same \<^verbatim>\<open>ctx\<close> to every module of
  a call) and whatever else the module reaches. Such a method is a function from that
  state to its results and the state it leaves; the type variable \<open>'w\<close> stands for the
  state, which the manager hands from one call to the next and never inspects.
  \<^verbatim>\<open>ValidateGenesis\<close> takes no \<^verbatim>\<open>Context\<close> and is modelled in the same way, so that a call
  of it can be told from no call. \<^verbatim>\<open>Name\<close>, \<^verbatim>\<open>Route\<close>, \<^verbatim>\<open>QuerierRoute\<close>, \<^verbatim>\<open>NewHandler\<close> and
  \<^verbatim>\<open>NewQuerierHandler\<close> are taken to be pure. Methods are taken to return: the one panic
  the model has is the manager's own, the method call on the nil interface that
  \<^verbatim>\<open>mm.Modules[name]\<close> yields for a name that is not a key.

  Types that the file imports and never looks into are type variables: \<open>'v\<close> for
  \<^verbatim>\<open>abci.ValidatorUpdate\<close>, \<open>'h\<close> for \<^verbatim>\<open>Handler\<close>, \<open>'q\<close> for \<^verbatim>\<open>Querier\<close>, \<open>'rb\<close> for
  \<^verbatim>\<open>abci.RequestBeginBlock\<close> and \<open>'re\<close> for \<^verbatim>\<open>abci.RequestEndBlock\<close>. The values of Go's
  \<^verbatim>\<open>error\<close> are \<open>'e option\<close>: \<open>None\<close> is nil, and \<open>'e\<close> is whatever the modules return as
  errors. A slice is a list; the nil slice and the empty slice are both \<open>[]\<close>, which is
  all that \<^verbatim>\<open>len\<close> and \<^verbatim>\<open>range\<close> see of them.
\<close>

subsection \<open>Data\<close>

text \<open>
  \<^verbatim>\<open>json.RawMessage\<close> is a byte slice that the code compares with nil, so here nil is
  \<open>None\<close> and a non-nil slice is \<open>Some\<close> of its bytes (a \<open>char\<close> is a byte).
\<close>

type_synonym RawMessage = "string option"

text \<open>
  Modelled from the spec: \<^verbatim>\<open>Tags\<close>, \<^verbatim>\<open>EmptyTags\<close>, \<^verbatim>\<open>AppendTags\<close> and \<^verbatim>\<open>ToKVPairs\<close> are
  declared in another file of the package. The spec's event tag set is an ordered
  sequence of key/value pairs that may hold duplicates, and its accumulator appends a
  module's tags to the running sequence.
\<close>

type_synonym Tags = "(string \<times> string) list"

definition EmptyTags :: "Tags" where
  "EmptyTags = []"

definition AppendTags :: "Tags \<Rightarrow> Tags \<Rightarrow> Tags" where
  "AppendTags t tags = t @ tags"

definition ToKVPairs :: "Tags \<Rightarrow> (string \<times> string) list" where
  "ToKVPairs t = t"

text \<open>
  The index expression \<^verbatim>\<open>genesis[name]\<close> on a \<^verbatim>\<open>map[string]json.RawMessage\<close>: the
  zero value nil for a name that is not a key, the stored value (which may itself be
  nil) otherwise.
\<close>

definition map_index :: "(string \<rightharpoonup> RawMessage) \<Rightarrow> string \<Rightarrow> RawMessage" where
  "map_index genesis k = (case genesis k of None \<Rightarrow> None | Some v \<Rightarrow> v)"

datatype panic = NilPointerDereference

text \<open>
  The interfaces. Of \<^verbatim>\<open>AppModuleBasic\<close> the codec, REST and command methods are left
  out, and of \<^verbatim>\<open>AppModule\<close> \<^verbatim>\<open>RegisterInvariants\<close>: they only hand external objects on.
  \<^verbatim>\<open>AppModule\<close> embeds \<^verbatim>\<open>AppModuleBasic\<close>, as the record extends it.
\<close>

record ('w, 'e) AppModuleBasic =
  Name :: string
  DefaultGenesis :: RawMessage
  ValidateGenesis :: "'w \<Rightarrow> RawMessage \<Rightarrow> 'e option \<times> 'w"

record ('w, 'e, 'v, 'h, 'q, 'rb, 're) AppModule = "('w, 'e) AppModuleBasic" +
  Route :: string
  NewHandler :: 'h
  QuerierRoute :: string
  NewQuerierHandler :: 'q
  InitGenesis :: "'w \<Rightarrow> RawMessage \<Rightarrow> 'v list \<times> 'w"
  ExportGenesis :: "'w \<Rightarrow> RawMessage \<times> 'w"
  BeginBlock :: "'w \<Rightarrow> 'rb \<Rightarrow> Tags \<times> 'w"
  EndBlock :: "'w \<Rightarrow> 're \<Rightarrow> ('v list \<times> Tags) \<times> 'w"

record ('w, 'e, 'v, 'h, 'q, 'rb, 're) ModuleManager =
  Modules :: "string \<rightharpoonup> ('w, 'e, 'v, 'h, 'q, 'rb, 're) AppModule"
  OrderInitGenesis :: "string list"
  OrderExportGenesis :: "string list"
  OrderBeginBlockers :: "string list"
  OrderEndBlockers :: "string list"

text \<open>The fields of the ABCI responses that the manager fills in.\<close>

record 'v ResponseInitChain =
  Validators :: "'v list"

record ResponseBeginBlock =
  BeginBlockTags :: "(string \<times> string) list"

record 'v ResponseEndBlock =
  ValidatorUpdates :: "'v list"
  EndBlockTags :: Tags

text \<open>
  Modelled from the spec: \<^verbatim>\<open>Router\<close> and \<^verbatim>\<open>QueryRouter\<close> are interfaces of external
  collaborators; what this file does to one is call \<^verbatim>\<open>AddRoute\<close>. A router is the list
  of the pairs it was given, in the order of the calls.
\<close>

type_synonym 'h Router = "(string \<times> 'h) list"

definition AddRoute :: "'h Router \<Rightarrow> string \<Rightarrow> 'h \<Rightarrow> 'h Router" where
  "AddRoute router r h = router @ [(r, h)]"

subsection \<open>ModuleBasicManager\<close>

text \<open>
  \<^verbatim>\<open>ModuleBasicManager\<close> is a slice of \<^verbatim>\<open>AppModuleBasic\<close>. \<^verbatim>\<open>ValidateGenesis\<close> ranges
  over it and returns the first error that is not nil.
\<close>

fun mbm_ValidateGenesis ::
  "('w, 'e, 'z) AppModuleBasic_scheme list \<Rightarrow> 'w \<Rightarrow> (string \<rightharpoonup> RawMessage) \<Rightarrow> 'e option \<times> 'w"
where
  "mbm_ValidateGenesis [] w genesis = (None, w)"
| "mbm_ValidateGenesis (mb # mbm) w genesis =
     (case ValidateGenesis mb w (map_index genesis (Name mb)) of
        (Some err, w') \<Rightarrow> (Some err, w')
      | (None, w') \<Rightarrow> mbm_ValidateGenesis mbm w' genesis)"

subsection \<open>ModuleManager\<close>

fun NewModuleManager_loop ::
  "('w, 'e, 'v, 'h, 'q, 'rb, 're) AppModule list \<Rightarrow>
   (string \<rightharpoonup> ('w, 'e, 'v, 'h, 'q, 'rb, 're) AppModule) \<Rightarrow> string list \<Rightarrow>
   (string \<rightharpoonup> ('w, 'e, 'v, 'h, 'q, 'rb, 're) AppModule) \<times> string list"
where
  "NewModuleManager_loop [] moduleMap modulesStr = (moduleMap, modulesStr)"
| "NewModuleManager_loop (md # modules) moduleMap modulesStr =
     NewModuleManager_loop modules (moduleMap(Name md \<mapsto> md)) (modulesStr @ [Name md])"

definition NewModuleManager ::
  "('w, 'e, 'v, 'h, 'q, 'rb, 're) AppModule list \<Rightarrow> ('w, 'e, 'v, 'h, 'q, 'rb, 're) ModuleManager"
where
  "NewModuleManager modules =
     (case NewModuleManager_loop modules Map.empty [] of
        (moduleMap, modulesStr) \<Rightarrow>
          \<lparr>Modules = moduleMap,
           OrderInitGenesis = modulesStr,
           OrderExportGenesis = modulesStr,
           OrderBeginBlockers = modulesStr,
           OrderEndBlockers = modulesStr\<rparr>)"

definition SetOrderInitGenesis ::
  "('w, 'e, 'v, 'h, 'q, 'rb, 're) ModuleManager \<Rightarrow> string list \<Rightarrow> ('w, 'e, 'v, 'h, 'q, 'rb, 're) ModuleManager"
where
  "SetOrderInitGenesis mm moduleNames = mm\<lparr>OrderInitGenesis := moduleNames\<rparr>"

definition SetOrderExportGenesis ::
  "('w, 'e, 'v, 'h, 'q, 'rb, 're) ModuleManager \<Rightarrow> string list \<Rightarrow> ('w, 'e, 'v, 'h, 'q, 'rb, 're) ModuleManager"
where
  "SetOrderExportGenesis mm moduleNames = mm\<lparr>OrderExportGenesis := moduleNames\<rparr>"

definition SetOrderBeginBlockers ::
  "('w, 'e, 'v, 'h, 'q, 'rb, 're) ModuleManager \<Rightarrow> string list \<Rightarrow> ('w, 'e, 'v, 'h, 'q, 'rb, 're) ModuleManager"
where
  "SetOrderBeginBlockers mm moduleNames = mm\<lparr>OrderBeginBlockers := moduleNames\<rparr>"

definition SetOrderEndBlockers ::
  "('w, 'e, 'v, 'h, 'q, 'rb, 're) ModuleManager \<Rightarrow> string list \<Rightarrow> ('w, 'e, 'v, 'h, 'q, 'rb, 're) ModuleManager"
where
  "SetOrderEndBlockers mm moduleNames = mm\<lparr>OrderEndBlockers := moduleNames\<rparr>"

text \<open>
  \<^verbatim>\<open>RegisterRoutes\<close> ranges over the map \<^verbatim>\<open>mm.Modules\<close>. Go leaves the order of such a
  range open, so the order in which the keys come up is an argument, \<open>keys\<close>: each key of
  the map once. A name that is not a key yields no iteration.
\<close>

fun RegisterRoutes_loop ::
  "(string \<rightharpoonup> ('w, 'e, 'v, 'h, 'q, 'rb, 're) AppModule) \<Rightarrow> string list \<Rightarrow>
   'h Router \<Rightarrow> 'q Router \<Rightarrow> 'h Router \<times> 'q Router"
where
  "RegisterRoutes_loop modules [] router queryRouter = (router, queryRouter)"
| "RegisterRoutes_loop modules (k # keys) router queryRouter =
     (case modules k of
        None \<Rightarrow> RegisterRoutes_loop modules keys router queryRouter
      | Some md \<Rightarrow>
          RegisterRoutes_loop modules keys
            (if Route md \<noteq> '''' then AddRoute router (Route md) (NewHandler md) else router)
            (if QuerierRoute md \<noteq> ''''
             then AddRoute queryRouter (QuerierRoute md) (NewQuerierHandler md)
             else queryRouter))"

definition range_of_map :: "('k \<rightharpoonup> 'a) \<Rightarrow> 'k list \<Rightarrow> bool" where
  "range_of_map m keys = (distinct keys \<and> set keys = dom m)"

definition mm_RegisterRoutes ::
  "('w, 'e, 'v, 'h, 'q, 'rb, 're) ModuleManager \<Rightarrow> string list \<Rightarrow>
   'h Router \<Rightarrow> 'q Router \<Rightarrow> 'h Router \<times> 'q Router"
where
  "mm_RegisterRoutes mm keys router queryRouter =
     RegisterRoutes_loop (Modules mm) keys router queryRouter"

text \<open>
  The four lifecycle calls. Each loop carries the variables the Go loop assigns to; a
  name that is not a key of \<^verbatim>\<open>mm.Modules\<close> ends the call with the panic, in the state
  reached so far.
\<close>

fun InitGenesis_loop ::
  "('w, 'e, 'v, 'h, 'q, 'rb, 're) ModuleManager \<Rightarrow> 'w \<Rightarrow> (string \<rightharpoonup> RawMessage) \<Rightarrow>
   string list \<Rightarrow> 'v list \<Rightarrow> (panic \<times> 'w) + ('v list \<times> 'w)"
where
  "InitGenesis_loop mm ctx genesisData [] validatorUpdates = Inr (validatorUpdates, ctx)"
| "InitGenesis_loop mm ctx genesisData (moduleName # names) validatorUpdates =
     (if map_index genesisData moduleName = None
      then InitGenesis_loop mm ctx genesisData names validatorUpdates
      else
        (case Modules mm moduleName of
           None \<Rightarrow> Inl (NilPointerDereference, ctx)
         | Some md \<Rightarrow>
             (case InitGenesis md ctx (map_index genesisData moduleName) of
                (moduleValUpdates, ctx') \<Rightarrow>
                  InitGenesis_loop mm ctx' genesisData names
                    (if length moduleValUpdates > 0 then moduleValUpdates
                     else validatorUpdates))))"

definition mm_InitGenesis ::
  "('w, 'e, 'v, 'h, 'q, 'rb, 're) ModuleManager \<Rightarrow> 'w \<Rightarrow> (string \<rightharpoonup> RawMessage) \<Rightarrow>
   (panic \<times> 'w) + ('v ResponseInitChain \<times> 'w)"
where
  "mm_InitGenesis mm ctx genesisData =
     (case InitGenesis_loop mm ctx genesisData (OrderInitGenesis mm) [] of
        Inl p \<Rightarrow> Inl p
      | Inr (validatorUpdates, ctx') \<Rightarrow> Inr (\<lparr>Validators = validatorUpdates\<rparr>, ctx'))"

fun ExportGenesis_loop ::
  "('w, 'e, 'v, 'h, 'q, 'rb, 're) ModuleManager \<Rightarrow> 'w \<Rightarrow> string list \<Rightarrow>
   (string \<rightharpoonup> RawMessage) \<Rightarrow> (panic \<times> 'w) + ((string \<rightharpoonup> RawMessage) \<times> 'w)"
where
  "ExportGenesis_loop mm ctx [] genesisData = Inr (genesisData, ctx)"
| "ExportGenesis_loop mm ctx (moduleName # names) genesisData =
     (case Modules mm moduleName of
        None \<Rightarrow> Inl (NilPointerDereference, ctx)
      | Some md \<Rightarrow>
          (case ExportGenesis md ctx of
             (exported, ctx') \<Rightarrow>
               ExportGenesis_loop mm ctx' names (genesisData(moduleName \<mapsto> exported))))"

definition mm_ExportGenesis ::
  "('w, 'e, 'v, 'h, 'q, 'rb, 're) ModuleManager \<Rightarrow> 'w \<Rightarrow>
   (panic \<times> 'w) + ((string \<rightharpoonup> RawMessage) \<times> 'w)"
where
  "mm_ExportGenesis mm ctx = ExportGenesis_loop mm ctx (OrderExportGenesis mm) Map.empty"

fun BeginBlock_loop ::
  "('w, 'e, 'v, 'h, 'q, 'rb, 're) ModuleManager \<Rightarrow> 'w \<Rightarrow> 'rb \<Rightarrow> string list \<Rightarrow> Tags \<Rightarrow>
   (panic \<times> 'w) + (Tags \<times> 'w)"
where
  "BeginBlock_loop mm ctx req [] tags = Inr (tags, ctx)"
| "BeginBlock_loop mm ctx req (moduleName # names) tags =
     (case Modules mm moduleName of
        None \<Rightarrow> Inl (NilPointerDereference, ctx)
      | Some md \<Rightarrow>
          (case BeginBlock md ctx req of
             (moduleTags, ctx') \<Rightarrow>
               BeginBlock_loop mm ctx' req names (AppendTags tags moduleTags)))"

definition mm_BeginBlock ::
  "('w, 'e, 'v, 'h, 'q, 'rb, 're) ModuleManager \<Rightarrow> 'w \<Rightarrow> 'rb \<Rightarrow>
   (panic \<times> 'w) + (ResponseBeginBlock \<times> 'w)"
where
  "mm_BeginBlock mm ctx req =
     (case BeginBlock_loop mm ctx req (OrderBeginBlockers mm) EmptyTags of
        Inl p \<Rightarrow> Inl p
      | Inr (tags, ctx') \<Rightarrow> Inr (\<lparr>BeginBlockTags = ToKVPairs tags\<rparr>, ctx'))"

fun EndBlock_loop ::
  "('w, 'e, 'v, 'h, 'q, 'rb, 're) ModuleManager \<Rightarrow> 'w \<Rightarrow> 're \<Rightarrow> string list \<Rightarrow>
   'v list \<Rightarrow> Tags \<Rightarrow> (panic \<times> 'w) + (('v list \<times> Tags) \<times> 'w)"
where
  "EndBlock_loop mm ctx req [] validatorUpdates tags = Inr ((validatorUpdates, tags), ctx)"
| "EndBlock_loop mm ctx req (moduleName # names) validatorUpdates tags =
     (case Modules mm moduleName of
        None \<Rightarrow> Inl (NilPointerDereference, ctx)
      | Some md \<Rightarrow>
          (case EndBlock md ctx req of
             ((moduleValUpdates, moduleTags), ctx') \<Rightarrow>
               EndBlock_loop mm ctx' req names
                 (if length moduleValUpdates > 0 then moduleValUpdates else validatorUpdates)
                 (AppendTags tags moduleTags)))"

definition mm_EndBlock ::
  "('w, 'e, 'v, 'h, 'q, 'rb, 're) ModuleManager \<Rightarrow> 'w \<Rightarrow> 're \<Rightarrow>
   (panic \<times> 'w) + ('v ResponseEndBlock \<times> 'w)"
where
  "mm_EndBlock mm ctx req =
     (case EndBlock_loop mm ctx req (OrderEndBlockers mm) [] EmptyTags of
        Inl p \<Rightarrow> Inl p
      | Inr ((validatorUpdates, tags), ctx') \<Rightarrow>
          Inr (\<lparr>ValidatorUpdates = validatorUpdates, EndBlockTags = tags\<rparr>, ctx'))"


subsection \<open>What a call of the manager does\<close>

text \<open>
  The claims speak of the modules that a call invokes, in which order, and of what the
  call makes of their results. \<open>invoke_seq\<close> runs a list of method calls one after the
  other, each in the state the one before left, and returns their results in that order
  with the last state.
\<close>

fun invoke_seq :: "('w \<Rightarrow> 'r \<times> 'w) list \<Rightarrow> 'w \<Rightarrow> 'r list \<times> 'w" where
  "invoke_seq [] w = ([], w)"
| "invoke_seq (call # calls) w =
     (case call w of
        (r, w1) \<Rightarrow> (case invoke_seq calls w1 of (rs, w2) \<Rightarrow> (r # rs, w2)))"

definition ValidateGenesis_calls ::
  "(string \<rightharpoonup> RawMessage) \<Rightarrow> ('w, 'e, 'z) AppModuleBasic_scheme list \<Rightarrow>
   ('w \<Rightarrow> 'e option \<times> 'w) list"
where
  "ValidateGenesis_calls genesis mbm =
     map (\<lambda>mb w. ValidateGenesis mb w (map_index genesis (Name mb))) mbm"

definition InitGenesis_calls ::
  "(string \<rightharpoonup> RawMessage) \<Rightarrow> string list \<Rightarrow> ('w, 'e, 'v, 'h, 'q, 'rb, 're) AppModule list \<Rightarrow>
   ('w \<Rightarrow> 'v list \<times> 'w) list"
where
  "InitGenesis_calls genesisData names ms =
     map (\<lambda>(n, m) w. InitGenesis m w (map_index genesisData n)) (zip names ms)"

definition ExportGenesis_calls ::
  "('w, 'e, 'v, 'h, 'q, 'rb, 're) AppModule list \<Rightarrow> ('w \<Rightarrow> RawMessage \<times> 'w) list"
where
  "ExportGenesis_calls ms = map (\<lambda>m w. ExportGenesis m w) ms"

definition BeginBlock_calls ::
  "'rb \<Rightarrow> ('w, 'e, 'v, 'h, 'q, 'rb, 're) AppModule list \<Rightarrow> ('w \<Rightarrow> Tags \<times> 'w) list"
where
  "BeginBlock_calls req ms = map (\<lambda>m w. BeginBlock m w req) ms"

definition EndBlock_calls ::
  "'re \<Rightarrow> ('w, 'e, 'v, 'h, 'q, 'rb, 're) AppModule list \<Rightarrow> ('w \<Rightarrow> ('v list \<times> Tags) \<times> 'w) list"
where
  "EndBlock_calls req ms = map (\<lambda>m w. EndBlock m w req) ms"

text \<open>The names of an ordering whose entry in the genesis map is not nil.\<close>

definition with_genesis :: "(string \<rightharpoonup> RawMessage) \<Rightarrow> string list \<Rightarrow> string list" where
  "with_genesis genesisData names = filter (\<lambda>n. map_index genesisData n \<noteq> None) names"

text \<open>
  The spec's rule for validator updates: of the lists that the modules returned, the
  last one that is not empty, and the empty list when there is none.
\<close>

definition last_nonempty :: "'a list list \<Rightarrow> 'a list" where
  "last_nonempty rs =
     (if filter (\<lambda>r. r \<noteq> []) rs = [] then [] else last (filter (\<lambda>r. r \<noteq> []) rs))"

text \<open>The map that a run of \<^verbatim>\<open>ExportGenesis\<close> stores, entry after entry.\<close>

definition exported ::
  "string list \<Rightarrow> RawMessage list \<Rightarrow> (string \<rightharpoonup> RawMessage)"
where
  "exported names rs = foldl (\<lambda>d (n, r). d(n \<mapsto> r)) Map.empty (zip names rs)"

text \<open>Of the modules of a list, the one that comes last among those with the name of \<open>m\<close>.\<close>

definition later_registered ::
  "('w, 'e, 'z) AppModuleBasic_scheme list \<Rightarrow> ('w, 'e, 'z) AppModuleBasic_scheme \<Rightarrow>
   ('w, 'e, 'z) AppModuleBasic_scheme"
where
  "later_registered modules m = last (filter (\<lambda>m'. Name m' = Name m) modules)"

subsection \<open>Modules for the examples\<close>

text \<open>
  In the examples the state is a log of calls: who was called, which method, and with
  which payload. A module \<open>spy\<close> appends its entry and returns what it was built with;
  its validator rejects the nil payload with an error of its own. A \<open>checker\<close> has the
  methods of \<^verbatim>\<open>AppModuleBasic\<close> only, and every \<open>checker\<close> rejects the nil payload with the
  same error.
\<close>

type_synonym call_log = "(string \<times> string \<times> RawMessage) list"

definition spy ::
  "string \<Rightarrow> string \<Rightarrow> string \<Rightarrow> string \<Rightarrow> (string \<times> int) list \<Rightarrow> Tags \<Rightarrow>
   (call_log, string, string \<times> int, string, string, unit, unit) AppModule"
where
  "spy ident name route qroute updates tags =
     \<lparr>Name = name,
      DefaultGenesis = None,
      ValidateGenesis =
        (\<lambda>w data. (if data = None then Some (ident @ '': no genesis'') else None,
                    w @ [(ident, ''ValidateGenesis'', data)])),
      Route = route,
      NewHandler = ident @ ''.handler'',
      QuerierRoute = qroute,
      NewQuerierHandler = ident @ ''.querier'',
      InitGenesis = (\<lambda>w data. (updates, w @ [(ident, ''InitGenesis'', data)])),
      ExportGenesis = (\<lambda>w. (Some ident, w @ [(ident, ''ExportGenesis'', None)])),
      BeginBlock = (\<lambda>w req. (tags, w @ [(ident, ''BeginBlock'', None)])),
      EndBlock = (\<lambda>w req. ((updates, tags), w @ [(ident, ''EndBlock'', None)]))\<rparr>"

definition checker :: "string \<Rightarrow> (call_log, string) AppModuleBasic" where
  "checker name =
     \<lparr>Name = name,
      DefaultGenesis = None,
      ValidateGenesis =
        (\<lambda>w data. (if data = None then Some ''invalid genesis'' else None,
                    w @ [(name, ''ValidateGenesis'', data)]))\<rparr>"

definition modA :: "(call_log, string, string \<times> int, string, string, unit, unit) AppModule" where
  "modA = spy ''A'' ''a'' ''a'' '''' [(''val1'', 10)] [(''action'', ''a'')]"

definition modB :: "(call_log, string, string \<times> int, string, string, unit, unit) AppModule" where
  "modB = spy ''B'' ''b'' '''' ''b'' [] [(''action'', ''a'')]"

definition modC :: "(call_log, string, string \<times> int, string, string, unit, unit) AppModule" where
  "modC = spy ''C'' ''c'' ''c'' ''c'' [(''val2'', 5)] [(''action'', ''c'')]"

text \<open>A second module with the name of \<open>modA\<close>.\<close>

definition modA2 :: "(call_log, string, string \<times> int, string, string, unit, unit) AppModule" where
  "modA2 = spy ''A2'' ''a'' ''a'' ''a'' [(''val3'', 7)] [(''action'', ''a2'')]"

definition genesisAC :: "string \<rightharpoonup> RawMessage" where
  "genesisAC = [''a'' \<mapsto> Some ''payloadA'', ''c'' \<mapsto> Some ''payloadC'']"

definition genesisB :: "string \<rightharpoonup> RawMessage" where
  "genesisB = [''b'' \<mapsto> Some ''payloadB'']"

text \<open>
  A manager of \<open>modA\<close> and \<open>modC\<close> whose four orderings are set to name, between the
  two, a module that was never registered; and a genesis map with an entry for it.
\<close>

definition mmGhost ::
  "(call_log, string, string \<times> int, string, string, unit, unit) ModuleManager"
where
  "mmGhost =
     SetOrderInitGenesis
       (SetOrderExportGenesis
          (SetOrderBeginBlockers
             (SetOrderEndBlockers (NewModuleManager [modA, modC]) [''a'', ''ghost'', ''c''])
             [''a'', ''ghost'', ''c''])
          [''a'', ''ghost'', ''c''])
       [''a'', ''ghost'', ''c'']"

definition genesisAG :: "string \<rightharpoonup> RawMessage" where
  "genesisAG = [''a'' \<mapsto> Some ''payloadA'', ''ghost'' \<mapsto> Some ''payloadG'']"

section \<open>Lemmas on the loops\<close>

lemma last_nonempty_acc:
  "(if filter (\<lambda>r. r \<noteq> []) rs = [] then (if 0 < length u then u else vu) else last_nonempty rs)
   = (if filter (\<lambda>r. r \<noteq> []) (u # rs) = [] then vu else last_nonempty (u # rs))"
  by (auto simp add: last_nonempty_def)

lemma BeginBlock_loop_invoke:
  "map (Modules mm) names = map Some ms \<Longrightarrow>
   invoke_seq (map (\<lambda>m w. BeginBlock m w req) ms) ctx = (rs, ctx') \<Longrightarrow>
   BeginBlock_loop mm ctx req names tags = Inr (tags @ concat rs, ctx')"
proof (induction names arbitrary: ms ctx ctx' tags rs)
  case Nil
  then show ?case by simp
next
  case (Cons n names)
  then obtain m ms' where ms: "ms = m # ms'" and m: "Modules mm n = Some m"
    and rest: "map (Modules mm) names = map Some ms'"
    by (cases ms) auto
  obtain t w1 where t: "BeginBlock m ctx req = (t, w1)" by (cases "BeginBlock m ctx req")
  obtain rs' w2 where r: "invoke_seq (map (\<lambda>m w. BeginBlock m w req) ms') w1 = (rs', w2)"
    by (cases "invoke_seq (map (\<lambda>m w. BeginBlock m w req) ms') w1")
  from Cons.prems(2) ms t r have eq: "rs = t # rs'" "ctx' = w2" by auto
  from Cons.IH [OF rest r] have "BeginBlock_loop mm w1 req names (AppendTags tags t) = Inr (AppendTags tags t @ concat rs', w2)" .
  with m t eq show ?case by (simp add: AppendTags_def)
qed

lemma EndBlock_loop_invoke:
  "map (Modules mm) names = map Some ms \<Longrightarrow>
   invoke_seq (map (\<lambda>m w. EndBlock m w req) ms) ctx = (rs, ctx') \<Longrightarrow>
   EndBlock_loop mm ctx req names vu tags =
     Inr ((if filter (\<lambda>r. r \<noteq> []) (map fst rs) = [] then vu else last_nonempty (map fst rs),
           tags @ concat (map snd rs)), ctx')"
proof (induction names arbitrary: ms ctx ctx' tags rs vu)
  case Nil
  then show ?case by simp
next
  case (Cons n names)
  then obtain m ms' where ms: "ms = m # ms'" and m: "Modules mm n = Some m"
    and rest: "map (Modules mm) names = map Some ms'"
    by (cases ms) auto
  obtain u t w1 where t: "EndBlock m ctx req = ((u, t), w1)" by (cases "EndBlock m ctx req") auto
  obtain rs' w2 where r: "invoke_seq (map (\<lambda>m w. EndBlock m w req) ms') w1 = (rs', w2)"
    by (cases "invoke_seq (map (\<lambda>m w. EndBlock m w req) ms') w1")
  from Cons.prems(2) ms t r have eq: "rs = (u, t) # rs'" "ctx' = w2" by auto
  have step: "EndBlock_loop mm ctx req (n # names) vu tags =
      EndBlock_loop mm w1 req names (if 0 < length u then u else vu) (AppendTags tags t)"
    using m t by simp
  have "EndBlock_loop mm w1 req names (if 0 < length u then u else vu) (AppendTags tags t) =
      Inr ((if filter (\<lambda>r. r \<noteq> []) (map fst rs') = [] then (if 0 < length u then u else vu)
            else last_nonempty (map fst rs'),
            AppendTags tags t @ concat (map snd rs')), w2)"
    by (rule Cons.IH [OF rest r])
  also have "\<dots> = Inr ((if filter (\<lambda>r. r \<noteq> []) (map fst rs) = [] then vu
            else last_nonempty (map fst rs), tags @ concat (map snd rs)), ctx')"
    unfolding eq last_nonempty_acc [of "map fst rs'" u vu] by (simp add: AppendTags_def)
  finally show ?case using step by simp
qed

lemma invoke_seq_Cons_elim:
  assumes "invoke_seq (c # cs) w = (rs, w')"
  obtains r w1 rs' where "c w = (r, w1)" "invoke_seq cs w1 = (rs', w')" "rs = r # rs'"
  using assms by (auto split: prod.splits)

lemma InitGenesis_loop_invoke:
  "map (Modules mm) (filter (\<lambda>n. map_index g n \<noteq> None) names) = map Some ms \<Longrightarrow>
   invoke_seq (map (\<lambda>(n, m) w. InitGenesis m w (map_index g n))
      (zip (filter (\<lambda>n. map_index g n \<noteq> None) names) ms)) ctx = (rs, ctx') \<Longrightarrow>
   InitGenesis_loop mm ctx g names vu =
     Inr (if filter (\<lambda>r. r \<noteq> []) rs = [] then vu else last_nonempty rs, ctx')"
proof (induction names arbitrary: ms ctx ctx' rs vu)
  case Nil
  then show ?case by simp
next
  case (Cons n names)
  show ?case
  proof (cases "map_index g n = None")
    case True
    with Cons show ?thesis by simp
  next
    case False
    with Cons.prems(1) obtain m ms' where ms: "ms = m # ms'" and m: "Modules mm n = Some m"
      and rest: "map (Modules mm) (filter (\<lambda>n. map_index g n \<noteq> None) names) = map Some ms'"
      by (cases ms) auto
    from Cons.prems(2) False ms
    have "invoke_seq ((\<lambda>w. InitGenesis m w (map_index g n)) #
        map (\<lambda>(n, m) w. InitGenesis m w (map_index g n))
          (zip (filter (\<lambda>n. map_index g n \<noteq> None) names) ms')) ctx = (rs, ctx')"
      by simp
    then obtain u w1 rs' where
      u: "InitGenesis m ctx (map_index g n) = (u, w1)"
      and r: "invoke_seq (map (\<lambda>(n, m) w. InitGenesis m w (map_index g n))
        (zip (filter (\<lambda>n. map_index g n \<noteq> None) names) ms')) w1 = (rs', ctx')"
      and eq: "rs = u # rs'"
      by (rule invoke_seq_Cons_elim)
    have step: "InitGenesis_loop mm ctx g (n # names) vu =
        InitGenesis_loop mm w1 g names (if 0 < length u then u else vu)"
      using False m u by (cases "map_index g n") simp_all
    have "InitGenesis_loop mm w1 g names (if 0 < length u then u else vu) =
        Inr (if filter (\<lambda>r. r \<noteq> []) rs' = [] then (if 0 < length u then u else vu)
             else last_nonempty rs', ctx')"
      by (rule Cons.IH [OF rest r])
    also have "\<dots> = Inr (if filter (\<lambda>r. r \<noteq> []) rs = [] then vu else last_nonempty rs, ctx')"
      unfolding eq last_nonempty_acc [of rs' u vu] by simp
    finally show ?thesis using step by simp
  qed
qed

lemma ExportGenesis_loop_invoke:
  "map (Modules mm) names = map Some ms \<Longrightarrow>
   invoke_seq (map (\<lambda>m w. ExportGenesis m w) ms) ctx = (rs, ctx') \<Longrightarrow>
   ExportGenesis_loop mm ctx names gd =
     Inr (foldl (\<lambda>d (n, r). d(n \<mapsto> r)) gd (zip names rs), ctx')"
proof (induction names arbitrary: ms ctx ctx' rs gd)
  case Nil
  then show ?case by simp
next
  case (Cons n names)
  then obtain m ms' where ms: "ms = m # ms'" and m: "Modules mm n = Some m"
    and rest: "map (Modules mm) names = map Some ms'"
    by (cases ms) auto
  from Cons.prems(2) ms
  have "invoke_seq (ExportGenesis m # map (\<lambda>m w. ExportGenesis m w) ms') ctx = (rs, ctx')"
    by simp
  then obtain e w1 rs' where
    e: "ExportGenesis m ctx = (e, w1)"
    and r: "invoke_seq (map (\<lambda>m w. ExportGenesis m w) ms') w1 = (rs', ctx')"
    and eq: "rs = e # rs'"
    by (rule invoke_seq_Cons_elim)
  have step: "ExportGenesis_loop mm ctx (n # names) gd =
      ExportGenesis_loop mm w1 names (gd(n \<mapsto> e))"
    using m e by simp
  have "foldl (\<lambda>d (n, r). d(n \<mapsto> r)) gd (zip (n # names) rs) =
      foldl (\<lambda>d (n, r). d(n \<mapsto> r)) (gd(n \<mapsto> e)) (zip names rs')"
    unfolding eq by (simp only: zip_Cons_Cons foldl_Cons case_prod_conv)
  with step Cons.IH [OF rest r, of "gd(n \<mapsto> e)"] show ?case by (simp only:)
qed


lemma BeginBlock_loop_append:
  "BeginBlock_loop mm ctx req (pre @ rest) tags =
     (case BeginBlock_loop mm ctx req pre tags of
        Inl p \<Rightarrow> Inl p
      | Inr (t, w) \<Rightarrow> BeginBlock_loop mm w req rest t)"
  by (induction pre arbitrary: ctx tags) (simp_all split: option.splits prod.splits)

lemma EndBlock_loop_append:
  "EndBlock_loop mm ctx req (pre @ rest) vu tags =
     (case EndBlock_loop mm ctx req pre vu tags of
        Inl p \<Rightarrow> Inl p
      | Inr ((u, t), w) \<Rightarrow> EndBlock_loop mm w req rest u t)"
  by (induction pre arbitrary: ctx vu tags) (simp_all split: option.splits prod.splits)

lemma ExportGenesis_loop_append:
  "ExportGenesis_loop mm ctx (pre @ rest) gd =
     (case ExportGenesis_loop mm ctx pre gd of
        Inl p \<Rightarrow> Inl p
      | Inr (d, w) \<Rightarrow> ExportGenesis_loop mm w rest d)"
  by (induction pre arbitrary: ctx gd) (simp_all split: option.splits prod.splits)

lemma InitGenesis_loop_append:
  "InitGenesis_loop mm ctx g (pre @ rest) vu =
     (case InitGenesis_loop mm ctx g pre vu of
        Inl p \<Rightarrow> Inl p
      | Inr (u, w) \<Rightarrow> InitGenesis_loop mm w g rest u)"
  by (induction pre arbitrary: ctx vu) (simp_all split: option.splits prod.splits)

lemma BeginBlock_loop_cong:
  "(\<And>k. k \<in> set names \<Longrightarrow> Modules mm' k = Modules mm k) \<Longrightarrow>
   BeginBlock_loop mm' ctx req names tags = BeginBlock_loop mm ctx req names tags"
  by (induction names arbitrary: ctx tags) (simp_all split: option.splits prod.splits)

lemma EndBlock_loop_cong:
  "(\<And>k. k \<in> set names \<Longrightarrow> Modules mm' k = Modules mm k) \<Longrightarrow>
   EndBlock_loop mm' ctx req names vu tags = EndBlock_loop mm ctx req names vu tags"
  by (induction names arbitrary: ctx vu tags) (simp_all split: option.splits prod.splits)

lemma ExportGenesis_loop_cong:
  "(\<And>k. k \<in> set names \<Longrightarrow> Modules mm' k = Modules mm k) \<Longrightarrow>
   ExportGenesis_loop mm' ctx names gd = ExportGenesis_loop mm ctx names gd"
  by (induction names arbitrary: ctx gd) (simp_all split: option.splits prod.splits)

lemma InitGenesis_loop_cong:
  "(\<And>k. k \<in> set names \<Longrightarrow> map_index g k \<noteq> None \<Longrightarrow> Modules mm' k = Modules mm k) \<Longrightarrow>
   InitGenesis_loop mm' ctx g names vu = InitGenesis_loop mm ctx g names vu"
  by (induction names arbitrary: ctx vu) (simp_all split: option.splits prod.splits)

lemma NewModuleManager_loop_names:
  "snd (NewModuleManager_loop modules moduleMap modulesStr) = modulesStr @ map Name modules"
  by (induction modules arbitrary: moduleMap modulesStr) simp_all

lemma NewModuleManager_loop_map:
  "fst (NewModuleManager_loop modules moduleMap modulesStr) n =
     (if filter (\<lambda>m. Name m = n) modules = [] then moduleMap n
      else Some (last (filter (\<lambda>m. Name m = n) modules)))"
  by (induction modules arbitrary: moduleMap modulesStr) simp_all

lemma mbm_ValidateGenesis_append:
  "mbm_ValidateGenesis pre w g = (None, w1) \<Longrightarrow>
   mbm_ValidateGenesis (pre @ rest) w g = mbm_ValidateGenesis rest w1 g"
  by (induction pre arbitrary: w) (auto split: option.splits prod.splits)

lemma mbm_ValidateGenesis_pass:
  "invoke_seq (map (\<lambda>mb w. ValidateGenesis mb w (map_index g (Name mb))) mbm) w = (rs, w') \<Longrightarrow>
   filter (\<lambda>r. r \<noteq> None) rs = [] \<Longrightarrow>
   mbm_ValidateGenesis mbm w g = (None, w')"
  by (induction mbm arbitrary: w rs) (auto split: option.splits prod.splits if_splits)

lemma mbm_ValidateGenesis_first:
  "mbm_ValidateGenesis mbm w g = (Some err, w') \<Longrightarrow>
   \<exists>pre mb post w1. mbm = pre @ mb # post \<and> mbm_ValidateGenesis pre w g = (None, w1) \<and>
     ValidateGenesis mb w1 (map_index g (Name mb)) = (Some err, w')"
proof (induction mbm arbitrary: w)
  case Nil
  then show ?case by simp
next
  case (Cons mb mbm)
  obtain r w1 where v: "ValidateGenesis mb w (map_index g (Name mb)) = (r, w1)"
    by (cases "ValidateGenesis mb w (map_index g (Name mb))")
  show ?case
  proof (cases r)
    case None
    with Cons.prems v have "mbm_ValidateGenesis mbm w1 g = (Some err, w')" by simp
    from Cons.IH [OF this] obtain pre mb' post w2 where
      "mbm = pre @ mb' # post" "mbm_ValidateGenesis pre w1 g = (None, w2)"
      "ValidateGenesis mb' w2 (map_index g (Name mb')) = (Some err, w')" by blast
    with v None have "mb # mbm = (mb # pre) @ mb' # post \<and>
        mbm_ValidateGenesis (mb # pre) w g = (None, w2) \<and>
        ValidateGenesis mb' w2 (map_index g (Name mb')) = (Some err, w')" by simp
    then show ?thesis by blast
  next
    case (Some e)
    with Cons.prems v have "mb # mbm = [] @ mb # mbm \<and> mbm_ValidateGenesis [] w g = (None, w) \<and>
        ValidateGenesis mb w (map_index g (Name mb)) = (Some err, w')" by simp
    then show ?thesis by blast
  qed
qed

lemma RegisterRoutes_loop_eq:
  "map modules keys = map Some ms \<Longrightarrow>
   RegisterRoutes_loop modules keys router queryRouter =
     (router @ map (\<lambda>m. (Route m, NewHandler m)) (filter (\<lambda>m. Route m \<noteq> '''') ms),
      queryRouter @ map (\<lambda>m. (QuerierRoute m, NewQuerierHandler m))
        (filter (\<lambda>m. QuerierRoute m \<noteq> '''') ms))"
proof (induction keys arbitrary: ms router queryRouter)
  case Nil
  then show ?case by simp
next
  case (Cons k keys)
  then obtain m ms' where ms: "ms = m # ms'" and m: "modules k = Some m"
    and rest: "map modules keys = map Some ms'"
    by (cases ms) auto
  show ?case unfolding ms using m Cons.IH [OF rest] by (simp add: AddRoute_def)
qed

section \<open>The claims\<close>

subsection \<open>Construction and the ordering setters\<close>

text \<open>
  C7. For every module list, the manager that \<^verbatim>\<open>NewModuleManager\<close> builds from it has
  all four orderings (init-genesis, export-genesis, begin-block, end-block) equal to the
  list of the modules' names in registration order.
\<close>

theorem NewModuleManager_default_orderings:
  "OrderInitGenesis (NewModuleManager modules) = map Name modules \<and>
   OrderExportGenesis (NewModuleManager modules) = map Name modules \<and>
   OrderBeginBlockers (NewModuleManager modules) = map Name modules \<and>
   OrderEndBlockers (NewModuleManager modules) = map Name modules"
proof -
  obtain moduleMap modulesStr where
    l: "NewModuleManager_loop modules Map.empty [] = (moduleMap, modulesStr)"
    by (cases "NewModuleManager_loop modules Map.empty []")
  with NewModuleManager_loop_names [of modules Map.empty "[]"]
  have "modulesStr = map Name modules" by simp
  with l show ?thesis by (simp add: NewModuleManager_def)
qed

text \<open>
  C8. For every manager and every sequence of names, each of the four setters puts the
  sequence in its own ordering and leaves the other three orderings and the module map
  as they were. The setters are total and look at neither the map nor the sequence, so
  there is no check that the names are keys of the map or a permutation of them: the
  equations hold for every \<open>names\<close>.
\<close>

theorem order_setters_replace_only_their_own:
  "OrderInitGenesis (SetOrderInitGenesis mm names) = names \<and>
   OrderExportGenesis (SetOrderInitGenesis mm names) = OrderExportGenesis mm \<and>
   OrderBeginBlockers (SetOrderInitGenesis mm names) = OrderBeginBlockers mm \<and>
   OrderEndBlockers (SetOrderInitGenesis mm names) = OrderEndBlockers mm \<and>
   Modules (SetOrderInitGenesis mm names) = Modules mm \<and>
   OrderInitGenesis (SetOrderExportGenesis mm names) = OrderInitGenesis mm \<and>
   OrderExportGenesis (SetOrderExportGenesis mm names) = names \<and>
   OrderBeginBlockers (SetOrderExportGenesis mm names) = OrderBeginBlockers mm \<and>
   OrderEndBlockers (SetOrderExportGenesis mm names) = OrderEndBlockers mm \<and>
   Modules (SetOrderExportGenesis mm names) = Modules mm \<and>
   OrderInitGenesis (SetOrderBeginBlockers mm names) = OrderInitGenesis mm \<and>
   OrderExportGenesis (SetOrderBeginBlockers mm names) = OrderExportGenesis mm \<and>
   OrderBeginBlockers (SetOrderBeginBlockers mm names) = names \<and>
   OrderEndBlockers (SetOrderBeginBlockers mm names) = OrderEndBlockers mm \<and>
   Modules (SetOrderBeginBlockers mm names) = Modules mm \<and>
   OrderInitGenesis (SetOrderEndBlockers mm names) = OrderInitGenesis mm \<and>
   OrderExportGenesis (SetOrderEndBlockers mm names) = OrderExportGenesis mm \<and>
   OrderBeginBlockers (SetOrderEndBlockers mm names) = OrderBeginBlockers mm \<and>
   OrderEndBlockers (SetOrderEndBlockers mm names) = names \<and>
   Modules (SetOrderEndBlockers mm names) = Modules mm"
  by (simp add: SetOrderInitGenesis_def SetOrderExportGenesis_def
      SetOrderBeginBlockers_def SetOrderEndBlockers_def)

subsection \<open>The lifecycle calls\<close>

text \<open>
  C5. For every manager, request and begin/end-block ordering, the tags that
  \<^verbatim>\<open>BeginBlock\<close> returns (and those that \<^verbatim>\<open>EndBlock\<close> returns) are the concatenation of the
  tags that the modules of the ordering returned, in the order of the iteration: nothing
  is reordered and nothing is dropped, so equal keys of different modules all stay, in
  order. The modules \<open>ms\<close> are those that the names of the ordering stand for in the
  map, and \<open>rs\<close> is what their calls, made one after the other, returned.
\<close>

theorem tags_concatenated_in_iteration_order:
  "(map (Modules mm) (OrderBeginBlockers mm) = map Some ms \<longrightarrow>
    invoke_seq (BeginBlock_calls req ms) ctx = (rs, ctx') \<longrightarrow>
    mm_BeginBlock mm ctx req = Inr (\<lparr>BeginBlockTags = concat rs\<rparr>, ctx')) \<and>
   (map (Modules mm) (OrderEndBlockers mm) = map Some ms2 \<longrightarrow>
    invoke_seq (EndBlock_calls req2 ms2) ctx = (rs2, ctx2) \<longrightarrow>
    (\<exists>resp. mm_EndBlock mm ctx req2 = Inr (resp, ctx2) \<and>
       EndBlockTags resp = concat (map snd rs2)))"
proof (intro conjI impI)
  assume "map (Modules mm) (OrderBeginBlockers mm) = map Some ms"
    and "invoke_seq (BeginBlock_calls req ms) ctx = (rs, ctx')"
  then have "BeginBlock_loop mm ctx req (OrderBeginBlockers mm) EmptyTags =
      Inr (EmptyTags @ concat rs, ctx')"
    unfolding BeginBlock_calls_def by (rule BeginBlock_loop_invoke)
  then show "mm_BeginBlock mm ctx req = Inr (\<lparr>BeginBlockTags = concat rs\<rparr>, ctx')"
    by (simp add: mm_BeginBlock_def EmptyTags_def ToKVPairs_def)
next
  assume "map (Modules mm) (OrderEndBlockers mm) = map Some ms2"
    and "invoke_seq (EndBlock_calls req2 ms2) ctx = (rs2, ctx2)"
  then have "EndBlock_loop mm ctx req2 (OrderEndBlockers mm) [] EmptyTags =
      Inr ((if filter (\<lambda>r. r \<noteq> []) (map fst rs2) = [] then []
            else last_nonempty (map fst rs2), EmptyTags @ concat (map snd rs2)), ctx2)"
    unfolding EndBlock_calls_def by (rule EndBlock_loop_invoke)
  then show "\<exists>resp. mm_EndBlock mm ctx req2 = Inr (resp, ctx2) \<and>
      EndBlockTags resp = concat (map snd rs2)"
    by (simp add: mm_EndBlock_def EmptyTags_def)
qed

text \<open>
  The spec's example: \<open>modA\<close> and \<open>modB\<close> return one tag each, with the same key (and
  here the same value); both are in the result, \<open>modA\<close>'s first.
\<close>

theorem tags_concatenated_in_iteration_order_witness:
  "map (Modules (NewModuleManager [modA, modB])) (OrderBeginBlockers (NewModuleManager [modA, modB]))
     = map Some [modA, modB] \<and>
   mm_BeginBlock (NewModuleManager [modA, modB]) [] () =
     Inr (\<lparr>BeginBlockTags = [(''action'', ''a''), (''action'', ''a'')]\<rparr>,
          [(''A'', ''BeginBlock'', None), (''B'', ''BeginBlock'', None)]) \<and>
   (\<exists>resp. mm_EndBlock (NewModuleManager [modA, modB]) [] () =
       Inr (resp, [(''A'', ''EndBlock'', None), (''B'', ''EndBlock'', None)]) \<and>
     EndBlockTags resp = [(''action'', ''a''), (''action'', ''a'')])"
  using tags_concatenated_in_iteration_order
    [of "NewModuleManager [modA, modB]" "[modA, modB]" "()" "[]"
        "[[(''action'', ''a'')], [(''action'', ''a'')]]"
        "[(''A'', ''BeginBlock'', None), (''B'', ''BeginBlock'', None)]"
        "[modA, modB]" "()"
        "[([(''val1'', 10)], [(''action'', ''a'')]), ([], [(''action'', ''a'')])]"
        "[(''A'', ''EndBlock'', None), (''B'', ''EndBlock'', None)]"]
  by (simp add: modA_def modB_def spy_def NewModuleManager_def BeginBlock_calls_def
      EndBlock_calls_def)

text \<open>The two calls that return validator updates, from the calls they make.\<close>

lemma mm_InitGenesis_invoke:
  assumes "map (Modules mm) (with_genesis g (OrderInitGenesis mm)) = map Some ms"
    and "invoke_seq (InitGenesis_calls g (with_genesis g (OrderInitGenesis mm)) ms) ctx = (rs, ctx')"
  shows "mm_InitGenesis mm ctx g = Inr (\<lparr>Validators = last_nonempty rs\<rparr>, ctx')"
proof -
  from assms have "InitGenesis_loop mm ctx g (OrderInitGenesis mm) [] =
      Inr (if filter (\<lambda>r. r \<noteq> []) rs = [] then [] else last_nonempty rs, ctx')"
    unfolding InitGenesis_calls_def with_genesis_def by (rule InitGenesis_loop_invoke)
  then show ?thesis by (simp add: mm_InitGenesis_def last_nonempty_def)
qed

lemma mm_EndBlock_invoke:
  assumes "map (Modules mm) (OrderEndBlockers mm) = map Some ms"
    and "invoke_seq (EndBlock_calls req ms) ctx = (rs, ctx')"
  shows "mm_EndBlock mm ctx req =
    Inr (\<lparr>ValidatorUpdates = last_nonempty (map fst rs), EndBlockTags = concat (map snd rs)\<rparr>, ctx')"
proof -
  from assms have "EndBlock_loop mm ctx req (OrderEndBlockers mm) [] EmptyTags =
      Inr ((if filter (\<lambda>r. r \<noteq> []) (map fst rs) = [] then []
            else last_nonempty (map fst rs), EmptyTags @ concat (map snd rs)), ctx')"
    unfolding EndBlock_calls_def by (rule EndBlock_loop_invoke)
  then show ?thesis by (simp add: mm_EndBlock_def EmptyTags_def last_nonempty_def)
qed

lemma last_nonempty_none: "\<forall>u\<in>set us. u = [] \<Longrightarrow> last_nonempty us = []"
  by (simp add: last_nonempty_def)

lemma last_nonempty_last:
  "u \<noteq> [] \<Longrightarrow> \<forall>x\<in>set post. x = [] \<Longrightarrow> last_nonempty (pre @ u # post) = u"
proof -
  assume u: "u \<noteq> []" and post: "\<forall>x\<in>set post. x = []"
  from post have "filter (\<lambda>r. r \<noteq> []) post = []" by (induction post) simp_all
  with u show ?thesis by (simp add: last_nonempty_def)
qed

text \<open>The example modules, method by method.\<close>

lemma spy_simps:
  "Name (spy i n r q u t) = n"
  "Route (spy i n r q u t) = r"
  "NewHandler (spy i n r q u t) = i @ ''.handler''"
  "QuerierRoute (spy i n r q u t) = q"
  "NewQuerierHandler (spy i n r q u t) = i @ ''.querier''"
  "ValidateGenesis (spy i n r q u t) w d =
     (if d = None then Some (i @ '': no genesis'') else None, w @ [(i, ''ValidateGenesis'', d)])"
  "InitGenesis (spy i n r q u t) w d = (u, w @ [(i, ''InitGenesis'', d)])"
  "ExportGenesis (spy i n r q u t) w = (Some i, w @ [(i, ''ExportGenesis'', None)])"
  "BeginBlock (spy i n r q u t) w rb = (t, w @ [(i, ''BeginBlock'', None)])"
  "EndBlock (spy i n r q u t) w re = ((u, t), w @ [(i, ''EndBlock'', None)])"
  by (simp_all add: spy_def)

lemmas example_simps =
  modA_def modB_def modC_def modA2_def spy_simps genesisAC_def genesisB_def map_index_def
  NewModuleManager_def with_genesis_def

text \<open>
  C1. For every manager and every ordering that \<^verbatim>\<open>InitGenesis\<close> or \<^verbatim>\<open>EndBlock\<close> iterates,
  the validator updates of the result are \<open>last_nonempty\<close> of the lists that the invoked
  modules returned, in the order of the iteration. That is the list of the last module
  whose list is not empty: the result is empty when every returned list is empty, and a
  list that is not empty is the result whenever only empty lists follow it, whatever
  came before it (so it replaces an earlier one, and a later empty list changes
  nothing).
\<close>

theorem validator_updates_last_nonempty_wins:
  "(map (Modules mm) (with_genesis g (OrderInitGenesis mm)) = map Some ms \<longrightarrow>
    invoke_seq (InitGenesis_calls g (with_genesis g (OrderInitGenesis mm)) ms) ctx = (rs, ctx') \<longrightarrow>
    (\<exists>resp. mm_InitGenesis mm ctx g = Inr (resp, ctx') \<and> Validators resp = last_nonempty rs)) \<and>
   (map (Modules mm) (OrderEndBlockers mm) = map Some ms2 \<longrightarrow>
    invoke_seq (EndBlock_calls req ms2) ctx = (rs2, ctx2) \<longrightarrow>
    (\<exists>resp. mm_EndBlock mm ctx req = Inr (resp, ctx2) \<and>
       ValidatorUpdates resp = last_nonempty (map fst rs2))) \<and>
   ((\<forall>u\<in>set us. u = []) \<longrightarrow> last_nonempty us = []) \<and>
   (u \<noteq> [] \<longrightarrow> (\<forall>x\<in>set post. x = []) \<longrightarrow> last_nonempty (pre @ u # post) = u)"
  using mm_InitGenesis_invoke [of mm g ms ctx rs ctx'] mm_EndBlock_invoke [of mm ms2 req ctx rs2 ctx2]
    last_nonempty_none [of us] last_nonempty_last [of u post pre]
  by simp

text \<open>
  With \<open>modA\<close>, \<open>modB\<close>, \<open>modC\<close> registered in this order, \<open>modB\<close> returning no updates:
  \<open>modC\<close>'s updates are the result of both calls, after \<open>modA\<close>'s.
\<close>

theorem validator_updates_last_nonempty_wins_witness:
  "(\<exists>resp. mm_InitGenesis (NewModuleManager [modA, modB, modC]) [] genesisAC =
       Inr (resp, [(''A'', ''InitGenesis'', Some ''payloadA''),
                   (''C'', ''InitGenesis'', Some ''payloadC'')]) \<and>
      Validators resp = [(''val2'', 5)]) \<and>
   (\<exists>resp. mm_EndBlock (NewModuleManager [modA, modB, modC]) [] () =
       Inr (resp, [(''A'', ''EndBlock'', None), (''B'', ''EndBlock'', None),
                   (''C'', ''EndBlock'', None)]) \<and>
      ValidatorUpdates resp = [(''val2'', 5)]) \<and>
   last_nonempty [[], [] :: (string \<times> int) list] = [] \<and>
   last_nonempty ([[(''val2'', 5::int)]] @ [(''val1'', 10)] # [[]]) = [(''val1'', 10)]"
proof -
  let ?mm = "NewModuleManager [modA, modB, modC]"
  let ?rs = "[[(''val1'', 10)], [(''val2'', 5)]] :: (string \<times> int) list list"
  let ?rs2 = "[([(''val1'', 10)], [(''action'', ''a'')]), ([], [(''action'', ''a'')]),
      ([(''val2'', 5)], [(''action'', ''c'')])] :: ((string \<times> int) list \<times> Tags) list"
  have h1: "map (Modules ?mm) (with_genesis genesisAC (OrderInitGenesis ?mm)) = map Some [modA, modC]"
    by (simp add: example_simps)
  have h2: "invoke_seq (InitGenesis_calls genesisAC (with_genesis genesisAC (OrderInitGenesis ?mm))
      [modA, modC]) [] = (?rs, [(''A'', ''InitGenesis'', Some ''payloadA''),
        (''C'', ''InitGenesis'', Some ''payloadC'')])"
    by (simp add: example_simps InitGenesis_calls_def)
  have h3: "map (Modules ?mm) (OrderEndBlockers ?mm) = map Some [modA, modB, modC]"
    by (simp add: example_simps)
  have h4: "invoke_seq (EndBlock_calls () [modA, modB, modC]) [] =
      (?rs2, [(''A'', ''EndBlock'', None), (''B'', ''EndBlock'', None), (''C'', ''EndBlock'', None)])"
    by (simp add: example_simps EndBlock_calls_def)
  have h5: "\<forall>u\<in>set [[], [] :: (string \<times> int) list]. u = []" by simp
  have h6: "[(''val1'', 10::int)] \<noteq> []" "\<forall>x\<in>set [[] :: (string \<times> int) list]. x = []" by simp_all
  have v: "last_nonempty ?rs = [(''val2'', 5)]" "last_nonempty (map fst ?rs2) = [(''val2'', 5)]"
    by (simp_all add: last_nonempty_def)
  from validator_updates_last_nonempty_wins
    [of ?mm genesisAC "[modA, modC]" "[]" ?rs
        "[(''A'', ''InitGenesis'', Some ''payloadA''), (''C'', ''InitGenesis'', Some ''payloadC'')]"
        "[modA, modB, modC]" "()" ?rs2
        "[(''A'', ''EndBlock'', None), (''B'', ''EndBlock'', None), (''C'', ''EndBlock'', None)]"
        "[[], []]" "[(''val1'', 10)]" "[[]]" "[[(''val2'', 5)]]"]
    h1 h2 h3 h4 h5 h6
  show ?thesis unfolding v by blast
qed

text \<open>
  \<^verbatim>\<open>InitGenesis\<close> looks a name up in the module map only when its genesis entry is not
  nil, so what the map holds for the other names has no part in the call.
\<close>

lemma mm_InitGenesis_cong:
  assumes "OrderInitGenesis mm' = OrderInitGenesis mm"
    and "\<forall>n. map_index g n \<noteq> None \<longrightarrow> Modules mm' n = Modules mm n"
  shows "mm_InitGenesis mm' ctx g = mm_InitGenesis mm ctx g"
proof -
  from assms(2) have "InitGenesis_loop mm' ctx g (OrderInitGenesis mm) [] =
      InitGenesis_loop mm ctx g (OrderInitGenesis mm) []"
    by (intro InitGenesis_loop_cong) simp
  with assms(1) show ?thesis by (simp add: mm_InitGenesis_def)
qed

text \<open>
  C2. For every manager, init ordering and genesis map, \<^verbatim>\<open>InitGenesis\<close> goes through the
  ordering and invokes \<^verbatim>\<open>InitGenesis\<close> of exactly the modules whose names have an entry
  that is not nil (\<open>with_genesis\<close> keeps those names; a name that is no key of the genesis
  map reads as nil), each with exactly that entry, in the order of the ordering; its
  result and final state are those of these calls. A module whose entry is nil or
  absent is skipped, its \<^verbatim>\<open>InitGenesis\<close> is not invoked: the call is the same whatever
  the module map holds for such a name, a module of any behaviour or none.
\<close>

theorem InitGenesis_skips_nil_genesis_entries:
  "(map (Modules mm) (with_genesis genesisData (OrderInitGenesis mm)) = map Some ms \<longrightarrow>
    invoke_seq (InitGenesis_calls genesisData (with_genesis genesisData (OrderInitGenesis mm)) ms) ctx
      = (rs, ctx') \<longrightarrow>
    mm_InitGenesis mm ctx genesisData = Inr (\<lparr>Validators = last_nonempty rs\<rparr>, ctx')) \<and>
   (OrderInitGenesis mm' = OrderInitGenesis mm \<longrightarrow>
    (\<forall>n. map_index genesisData n \<noteq> None \<longrightarrow> Modules mm' n = Modules mm n) \<longrightarrow>
    mm_InitGenesis mm' ctx genesisData = mm_InitGenesis mm ctx genesisData)"
  using mm_InitGenesis_invoke [of mm genesisData ms ctx rs ctx']
    mm_InitGenesis_cong [of mm' mm genesisData ctx]
  by blast

text \<open>
  The spec's example: init order \<open>[a, b, c]\<close> and a genesis map with entries for \<open>a\<close> and
  \<open>c\<close> only. The log shows the calls of \<open>modA\<close> and \<open>modC\<close>, each with its payload, and
  none of \<open>modB\<close>; taking \<open>b\<close> out of the module map changes nothing.
\<close>

theorem InitGenesis_skips_nil_genesis_entries_witness:
  "with_genesis genesisAC (OrderInitGenesis (NewModuleManager [modA, modB, modC])) = [''a'', ''c''] \<and>
   mm_InitGenesis (NewModuleManager [modA, modB, modC]) [] genesisAC =
     Inr (\<lparr>Validators = [(''val2'', 5)]\<rparr>,
          [(''A'', ''InitGenesis'', Some ''payloadA''), (''C'', ''InitGenesis'', Some ''payloadC'')]) \<and>
   mm_InitGenesis
     ((NewModuleManager [modA, modB, modC])
        \<lparr>Modules := (Modules (NewModuleManager [modA, modB, modC]))(''b'' := None)\<rparr>) [] genesisAC =
     mm_InitGenesis (NewModuleManager [modA, modB, modC]) [] genesisAC"
proof -
  let ?mm = "NewModuleManager [modA, modB, modC]"
  let ?mm' = "?mm\<lparr>Modules := (Modules ?mm)(''b'' := None)\<rparr>"
  let ?rs = "[[(''val1'', 10)], [(''val2'', 5)]] :: (string \<times> int) list list"
  let ?log = "[(''A'', ''InitGenesis'', Some ''payloadA''), (''C'', ''InitGenesis'', Some ''payloadC'')]"
  have names: "with_genesis genesisAC (OrderInitGenesis ?mm) = [''a'', ''c'']"
    by (simp add: example_simps)
  have h1: "map (Modules ?mm) (with_genesis genesisAC (OrderInitGenesis ?mm)) = map Some [modA, modC]"
    by (simp add: example_simps)
  have h2: "invoke_seq (InitGenesis_calls genesisAC (with_genesis genesisAC (OrderInitGenesis ?mm))
      [modA, modC]) [] = (?rs, ?log)"
    by (simp add: example_simps InitGenesis_calls_def)
  have h3: "OrderInitGenesis ?mm' = OrderInitGenesis ?mm" by simp
  have h4: "\<forall>n. map_index genesisAC n \<noteq> None \<longrightarrow> Modules ?mm' n = Modules ?mm n"
    by (simp add: genesisAC_def map_index_def)
  have v: "last_nonempty ?rs = [(''val2'', 5)]" by (simp add: last_nonempty_def)
  from InitGenesis_skips_nil_genesis_entries [of ?mm genesisAC "[modA, modC]" "[]" ?rs ?log ?mm']
    h1 h2 h3 h4 names
  show ?thesis unfolding v by blast
qed

subsection \<open>Genesis validation\<close>

lemma mbm_ValidateGenesis_all_pass:
  "invoke_seq (ValidateGenesis_calls g mbm) w = (rs, w') \<Longrightarrow> list_all (\<lambda>r. r = None) rs \<Longrightarrow>
   mbm_ValidateGenesis mbm w g = (None, w')"
  unfolding ValidateGenesis_calls_def
  by (rule mbm_ValidateGenesis_pass) (simp_all add: list_all_iff filter_empty_conv)

text \<open>
  C3. For every basic registry and genesis map, \<^verbatim>\<open>ValidateGenesis\<close> goes through the
  modules in registration order and gives each validator the entry under the module's
  own name (nil when the name is no key). When the validators of the modules \<open>pre\<close>,
  called in this order, all report no error and the validator of the next module \<open>mb\<close>
  reports \<open>err\<close>, the call returns \<open>err\<close> in the state that \<open>mb\<close>'s validator left,
  whatever the later modules \<open>post\<close> are: their validators are not invoked. When the
  validators of all modules report no error, the call returns no error, in the state
  after the last of them.
\<close>

theorem ValidateGenesis_fails_fast:
  "(invoke_seq (ValidateGenesis_calls genesis pre) w = (rs, w1) \<longrightarrow> list_all (\<lambda>r. r = None) rs \<longrightarrow>
    ValidateGenesis mb w1 (map_index genesis (Name mb)) = (Some err, w2) \<longrightarrow>
    mbm_ValidateGenesis (pre @ mb # post) w genesis = (Some err, w2)) \<and>
   (invoke_seq (ValidateGenesis_calls genesis mbm) w = (rs', w') \<longrightarrow> list_all (\<lambda>r. r = None) rs' \<longrightarrow>
    mbm_ValidateGenesis mbm w genesis = (None, w'))"
proof (intro conjI impI)
  assume "invoke_seq (ValidateGenesis_calls genesis pre) w = (rs, w1)"
    and "list_all (\<lambda>r. r = None) rs"
    and mb: "ValidateGenesis mb w1 (map_index genesis (Name mb)) = (Some err, w2)"
  then have "mbm_ValidateGenesis pre w genesis = (None, w1)"
    by (simp add: mbm_ValidateGenesis_all_pass)
  then have "mbm_ValidateGenesis (pre @ mb # post) w genesis =
      mbm_ValidateGenesis (mb # post) w1 genesis"
    by (rule mbm_ValidateGenesis_append)
  with mb show "mbm_ValidateGenesis (pre @ mb # post) w genesis = (Some err, w2)" by simp
next
  assume "invoke_seq (ValidateGenesis_calls genesis mbm) w = (rs', w')"
    and "list_all (\<lambda>r. r = None) rs'"
  then show "mbm_ValidateGenesis mbm w genesis = (None, w')"
    by (rule mbm_ValidateGenesis_all_pass)
qed

text \<open>
  The spec's example, with one module ahead: in \<open>[modB, modA, modC]\<close> with an entry for
  \<open>b\<close> only, \<open>modA\<close> fails; the error is \<open>modA\<close>'s and the log has no call of \<open>modC\<close>.
  The registry of \<open>modB\<close> alone passes.
\<close>

theorem ValidateGenesis_fails_fast_witness:
  "mbm_ValidateGenesis ([modB] @ modA # [modC]) [] genesisB =
     (Some ''A: no genesis'',
      [(''B'', ''ValidateGenesis'', Some ''payloadB''), (''A'', ''ValidateGenesis'', None)]) \<and>
   mbm_ValidateGenesis [modB] [] genesisB =
     (None, [(''B'', ''ValidateGenesis'', Some ''payloadB'')])"
proof -
  have h1: "invoke_seq (ValidateGenesis_calls genesisB [modB]) [] =
      ([None], [(''B'', ''ValidateGenesis'', Some ''payloadB'')])"
    by (simp add: example_simps ValidateGenesis_calls_def)
  have h2: "list_all (\<lambda>r. r = None) [None :: string option]" by simp
  have h3: "ValidateGenesis modA [(''B'', ''ValidateGenesis'', Some ''payloadB'')]
      (map_index genesisB (Name modA)) =
      (Some ''A: no genesis'',
       [(''B'', ''ValidateGenesis'', Some ''payloadB''), (''A'', ''ValidateGenesis'', None)])"
    by (simp add: example_simps)
  from ValidateGenesis_fails_fast
    [of genesisB "[modB]" "[]" "[None]" "[(''B'', ''ValidateGenesis'', Some ''payloadB'')]" modA
        "''A: no genesis''"
        "[(''B'', ''ValidateGenesis'', Some ''payloadB''), (''A'', ''ValidateGenesis'', None)]"
        "[modC]" "[modB]" "[None]" "[(''B'', ''ValidateGenesis'', Some ''payloadB'')]"]
    h1 h2 h3
  show ?thesis by blast
qed

text \<open>
  C4, as the spec has it, does not hold: the claim is that the error which
  \<^verbatim>\<open>ValidateGenesis\<close> reports identifies the first failing module, beyond that module's
  underlying error. The code returns the validator's error as it is. In the registry
  of two \<open>checker\<close>s below, the first failing module is \<open>a\<close> under one genesis map and
  \<open>b\<close> under the other (the logs show it), and the error returned is the same value in
  both calls, so the caller cannot tell from it which module failed.
\<close>

theorem ValidateGenesis_error_names_no_module:
  "mbm_ValidateGenesis [checker ''a'', checker ''b''] [] genesisB =
     (Some ''invalid genesis'', [(''a'', ''ValidateGenesis'', None)]) \<and>
   mbm_ValidateGenesis [checker ''a'', checker ''b''] [] genesisAC =
     (Some ''invalid genesis'',
      [(''a'', ''ValidateGenesis'', Some ''payloadA''), (''b'', ''ValidateGenesis'', None)]) \<and>
   fst (mbm_ValidateGenesis [checker ''a'', checker ''b''] [] genesisB) =
   fst (mbm_ValidateGenesis [checker ''a'', checker ''b''] [] genesisAC)"
  by (simp add: checker_def genesisAC_def genesisB_def map_index_def)

text \<open>A run of \<^verbatim>\<open>ValidateGenesis\<close> that reports no error has called every validator.\<close>

lemma mbm_ValidateGenesis_passed:
  "mbm_ValidateGenesis pre w genesis = (None, w1) \<Longrightarrow>
   \<exists>rs. invoke_seq (ValidateGenesis_calls genesis pre) w = (rs, w1) \<and>
     list_all (\<lambda>r. r = None) rs"
proof (induction pre arbitrary: w)
  case Nil
  then show ?case by (simp add: ValidateGenesis_calls_def)
next
  case (Cons mb pre)
  obtain r w0 where v: "ValidateGenesis mb w (map_index genesis (Name mb)) = (r, w0)"
    by (cases "ValidateGenesis mb w (map_index genesis (Name mb))")
  with Cons.prems have r: "r = None" and rest: "mbm_ValidateGenesis pre w0 genesis = (None, w1)"
    by (cases r; simp)+
  from Cons.IH [OF rest] obtain rs where
    rs: "invoke_seq (ValidateGenesis_calls genesis pre) w0 = (rs, w1)"
    and ok: "list_all (\<lambda>r. r = None) rs"
    by blast
  from v r rs have "invoke_seq (ValidateGenesis_calls genesis (mb # pre)) w = (None # rs, w1)"
    by (simp add: ValidateGenesis_calls_def)
  with ok show ?case by simp
qed

text \<open>
  C4, amended. Whenever \<^verbatim>\<open>ValidateGenesis\<close> reports an error, that error is exactly the
  value which the validator of the first failing module returned for its own entry,
  handed on unchanged: the validators of the modules \<open>pre\<close> before it, called in
  registration order, all returned no error, and the state is the one that the failing
  validator left. Conversely, when the validators of \<open>pre'\<close> return no error and the
  validator of the next module returns an error, that value and no other is what the
  call reports. The manager adds nothing that names the module.
\<close>

theorem ValidateGenesis_returns_the_validator_error:
  "(mbm_ValidateGenesis mbm w genesis = (Some err, w') \<longrightarrow>
    (\<exists>pre mb post rs w1. mbm = pre @ mb # post \<and>
       invoke_seq (ValidateGenesis_calls genesis pre) w = (rs, w1) \<and>
       list_all (\<lambda>r. r = None) rs \<and>
       ValidateGenesis mb w1 (map_index genesis (Name mb)) = (Some err, w'))) \<and>
   (invoke_seq (ValidateGenesis_calls genesis pre') w = (rs', w1') \<longrightarrow>
    list_all (\<lambda>r. r = None) rs' \<longrightarrow>
    ValidateGenesis mb' w1' (map_index genesis (Name mb')) = (Some err', w2') \<longrightarrow>
    mbm_ValidateGenesis (pre' @ mb' # post') w genesis = (Some err', w2'))"
proof (intro conjI impI)
  assume "mbm_ValidateGenesis mbm w genesis = (Some err, w')"
  from mbm_ValidateGenesis_first [OF this]
  obtain pre mb post w1 where m: "mbm = pre @ mb # post"
    and p: "mbm_ValidateGenesis pre w genesis = (None, w1)"
    and v: "ValidateGenesis mb w1 (map_index genesis (Name mb)) = (Some err, w')"
    by blast
  from mbm_ValidateGenesis_passed [OF p] obtain rs where
    "invoke_seq (ValidateGenesis_calls genesis pre) w = (rs, w1)" "list_all (\<lambda>r. r = None) rs"
    by blast
  with m v show "\<exists>pre mb post rs w1. mbm = pre @ mb # post \<and>
       invoke_seq (ValidateGenesis_calls genesis pre) w = (rs, w1) \<and>
       list_all (\<lambda>r. r = None) rs \<and>
       ValidateGenesis mb w1 (map_index genesis (Name mb)) = (Some err, w')"
    by blast
next
  assume "invoke_seq (ValidateGenesis_calls genesis pre') w = (rs', w1')"
    and "list_all (\<lambda>r. r = None) rs'"
    and mb: "ValidateGenesis mb' w1' (map_index genesis (Name mb')) = (Some err', w2')"
  then have "mbm_ValidateGenesis pre' w genesis = (None, w1')"
    by (simp add: mbm_ValidateGenesis_all_pass)
  then have "mbm_ValidateGenesis (pre' @ mb' # post') w genesis =
      mbm_ValidateGenesis (mb' # post') w1' genesis"
    by (rule mbm_ValidateGenesis_append)
  with mb show "mbm_ValidateGenesis (pre' @ mb' # post') w genesis = (Some err', w2')" by simp
qed

text \<open>
  Three \<open>checker\<close>s and a genesis map without an entry for \<open>b\<close>: the error reported is
  the one that the validator of \<open>b\<close> returned after \<open>a\<close> passed, and \<open>c\<close> is not called.
\<close>

theorem ValidateGenesis_returns_the_validator_error_witness:
  "mbm_ValidateGenesis [checker ''a'', checker ''b'', checker ''c''] [] genesisAC =
     (Some ''invalid genesis'',
      [(''a'', ''ValidateGenesis'', Some ''payloadA''), (''b'', ''ValidateGenesis'', None)]) \<and>
   (\<exists>pre mb post rs w1. [checker ''a'', checker ''b'', checker ''c''] = pre @ mb # post \<and>
     invoke_seq (ValidateGenesis_calls genesisAC pre) [] = (rs, w1) \<and>
     list_all (\<lambda>r. r = None) rs \<and>
     ValidateGenesis mb w1 (map_index genesisAC (Name mb)) =
       (Some ''invalid genesis'',
        [(''a'', ''ValidateGenesis'', Some ''payloadA''), (''b'', ''ValidateGenesis'', None)])) \<and>
   mbm_ValidateGenesis ([checker ''a''] @ checker ''b'' # [checker ''c'']) [] genesisAC =
     (Some ''invalid genesis'',
      [(''a'', ''ValidateGenesis'', Some ''payloadA''), (''b'', ''ValidateGenesis'', None)])"
proof -
  let ?w1 = "[(''a'', ''ValidateGenesis'', Some ''payloadA'')]"
  let ?w2 = "[(''a'', ''ValidateGenesis'', Some ''payloadA''), (''b'', ''ValidateGenesis'', None)]"
  have h: "mbm_ValidateGenesis [checker ''a'', checker ''b'', checker ''c''] [] genesisAC =
     (Some ''invalid genesis'', ?w2)"
    by (simp add: checker_def genesisAC_def map_index_def)
  have p: "invoke_seq (ValidateGenesis_calls genesisAC [checker ''a'']) [] = ([None], ?w1)"
    by (simp add: ValidateGenesis_calls_def checker_def genesisAC_def map_index_def)
  have n: "list_all (\<lambda>r. r = None) [None :: string option]" by simp
  have v: "ValidateGenesis (checker ''b'') ?w1 (map_index genesisAC (Name (checker ''b''))) =
      (Some ''invalid genesis'', ?w2)"
    by (simp add: checker_def genesisAC_def map_index_def)
  from ValidateGenesis_returns_the_validator_error
    [of "[checker ''a'', checker ''b'', checker ''c'']" "[]" genesisAC "''invalid genesis''" ?w2
        "[checker ''a'']" "[None]" ?w1 "checker ''b''" "''invalid genesis''" ?w2
        "[checker ''c'']"]
    h p n v
  show ?thesis by blast
qed

subsection \<open>Route registration\<close>

lemma length_filter_resolved:
  "map M keys = map Some ms \<Longrightarrow>
   length (filter (\<lambda>k. \<exists>m. M k = Some m \<and> Q m) keys) = length (filter Q ms)"
proof (induction keys arbitrary: ms)
  case Nil
  then show ?case by simp
next
  case (Cons k keys)
  then obtain m ms' where "ms = m # ms'" "M k = Some m" "map M keys = map Some ms'"
    by (cases ms) auto
  with Cons.IH [of ms'] show ?case by simp
qed

lemma card_entries_resolved:
  assumes "range_of_map M keys" and "map M keys = map Some ms"
  shows "card {k. \<exists>m. M k = Some m \<and> Q m} = length (filter Q ms)"
proof -
  from assms(1) have d: "distinct keys" and s: "set keys = dom M"
    by (simp_all add: range_of_map_def)
  from s have "{k. \<exists>m. M k = Some m \<and> Q m} = set (filter (\<lambda>k. \<exists>m. M k = Some m \<and> Q m) keys)"
    by auto
  moreover from d have "distinct (filter (\<lambda>k. \<exists>m. M k = Some m \<and> Q m) keys)" by simp
  ultimately have "card {k. \<exists>m. M k = Some m \<and> Q m} =
      length (filter (\<lambda>k. \<exists>m. M k = Some m \<and> Q m) keys)"
    by (simp only: distinct_card)
  with assms(2) show ?thesis by (simp add: length_filter_resolved)
qed

lemma range_of_map_resolved:
  assumes "range_of_map M keys"
  shows "\<exists>ms. map M keys = map Some ms"
proof -
  from assms have "set keys \<subseteq> dom M" by (simp add: range_of_map_def)
  then have "map M keys = map Some (map (\<lambda>k. the (M k)) keys)"
    by (induction keys) auto
  then show ?thesis by blast
qed

text \<open>
  C6. For every manager and every order \<open>keys\<close> in which the range over the module map
  may come up with its keys (each key once), \<^verbatim>\<open>RegisterRoutes\<close> adds to the transaction
  router, in that order, the pair of \<^verbatim>\<open>Route\<close> and \<^verbatim>\<open>NewHandler\<close> of each module of the map
  whose route is not the empty string, and nothing else: a module with a route is
  registered once, with its own handler (so the router gains as many pairs as the map
  has modules with a route), and a module whose route is empty is not registered. The
  same holds of \<^verbatim>\<open>QuerierRoute\<close>, \<^verbatim>\<open>NewQuerierHandler\<close> and the query router.
\<close>

theorem RegisterRoutes_registers_nonempty_routes_once:
  "range_of_map (Modules mm) keys \<Longrightarrow>
   \<exists>ms. map (Modules mm) keys = map Some ms \<and>
     mm_RegisterRoutes mm keys router queryRouter =
       (router @ map (\<lambda>m. (Route m, NewHandler m)) (filter (\<lambda>m. Route m \<noteq> '''') ms),
        queryRouter @ map (\<lambda>m. (QuerierRoute m, NewQuerierHandler m))
          (filter (\<lambda>m. QuerierRoute m \<noteq> '''') ms)) \<and>
     length (filter (\<lambda>m. Route m \<noteq> '''') ms) =
       card {k. \<exists>m. Modules mm k = Some m \<and> Route m \<noteq> ''''} \<and>
     length (filter (\<lambda>m. QuerierRoute m \<noteq> '''') ms) =
       card {k. \<exists>m. Modules mm k = Some m \<and> QuerierRoute m \<noteq> ''''}"
proof -
  assume r: "range_of_map (Modules mm) keys"
  then obtain ms where ms: "map (Modules mm) keys = map Some ms"
    using range_of_map_resolved by blast
  have "mm_RegisterRoutes mm keys router queryRouter =
       (router @ map (\<lambda>m. (Route m, NewHandler m)) (filter (\<lambda>m. Route m \<noteq> '''') ms),
        queryRouter @ map (\<lambda>m. (QuerierRoute m, NewQuerierHandler m))
          (filter (\<lambda>m. QuerierRoute m \<noteq> '''') ms))"
    unfolding mm_RegisterRoutes_def using ms by (rule RegisterRoutes_loop_eq)
  moreover have "length (filter (\<lambda>m. Route m \<noteq> '''') ms) =
       card {k. \<exists>m. Modules mm k = Some m \<and> Route m \<noteq> ''''}"
    using card_entries_resolved [OF r ms, of "\<lambda>m. Route m \<noteq> ''''"] by simp
  moreover have "length (filter (\<lambda>m. QuerierRoute m \<noteq> '''') ms) =
       card {k. \<exists>m. Modules mm k = Some m \<and> QuerierRoute m \<noteq> ''''}"
    using card_entries_resolved [OF r ms, of "\<lambda>m. QuerierRoute m \<noteq> ''''"] by simp
  ultimately show ?thesis using ms by blast
qed

text \<open>
  \<open>modA\<close> has a route and no querier route, \<open>modB\<close> a querier route and no route, \<open>modC\<close>
  both; the range is taken to come up with \<open>c\<close>, \<open>a\<close>, \<open>b\<close>.
\<close>

theorem RegisterRoutes_registers_nonempty_routes_once_witness:
  "range_of_map (Modules (NewModuleManager [modA, modB, modC])) [''c'', ''a'', ''b''] \<and>
   mm_RegisterRoutes (NewModuleManager [modA, modB, modC]) [''c'', ''a'', ''b''] [] [] =
     ([(''c'', ''C.handler''), (''a'', ''A.handler'')],
      [(''c'', ''C.querier''), (''b'', ''B.querier'')]) \<and>
   card {k. \<exists>m. Modules (NewModuleManager [modA, modB, modC]) k = Some m \<and> Route m \<noteq> ''''} = 2 \<and>
   card {k. \<exists>m. Modules (NewModuleManager [modA, modB, modC]) k = Some m \<and> QuerierRoute m \<noteq> ''''} = 2"
proof -
  let ?mm = "NewModuleManager [modA, modB, modC]"
  have M: "Modules ?mm = [''a'' \<mapsto> modA, ''b'' \<mapsto> modB, ''c'' \<mapsto> modC]"
    by (simp add: NewModuleManager_def modA_def modB_def modC_def spy_simps)
  have h: "range_of_map (Modules ?mm) [''c'', ''a'', ''b'']"
    unfolding M by (auto simp add: range_of_map_def)
  from RegisterRoutes_registers_nonempty_routes_once [OF h, of "[]" "[]"]
  obtain ms where ms: "map (Modules ?mm) [''c'', ''a'', ''b''] = map Some ms"
    and r: "mm_RegisterRoutes ?mm [''c'', ''a'', ''b''] [] [] =
       ([] @ map (\<lambda>m. (Route m, NewHandler m)) (filter (\<lambda>m. Route m \<noteq> '''') ms),
        [] @ map (\<lambda>m. (QuerierRoute m, NewQuerierHandler m))
          (filter (\<lambda>m. QuerierRoute m \<noteq> '''') ms))"
    and c1: "length (filter (\<lambda>m. Route m \<noteq> '''') ms) =
       card {k. \<exists>m. Modules ?mm k = Some m \<and> Route m \<noteq> ''''}"
    and c2: "length (filter (\<lambda>m. QuerierRoute m \<noteq> '''') ms) =
       card {k. \<exists>m. Modules ?mm k = Some m \<and> QuerierRoute m \<noteq> ''''}"
    by blast
  from ms have "map Some ms = map Some [modC, modA, modB]" unfolding M by simp
  then have "ms = [modC, modA, modB]" by (simp only: inj_map_eq_map [OF inj_Some])
  with r c1 c2 h show ?thesis by (simp add: modA_def modB_def modC_def spy_simps)
qed

subsection \<open>Orderings and the module map\<close>

text \<open>
  A lifecycle call reaches a name of its ordering that is no key of the module map
  after the calls of the modules before it, and panics there.
\<close>

lemma mm_BeginBlock_panic:
  assumes "OrderBeginBlockers mm = pre @ n # post"
    and "map (Modules mm) pre = map Some ms"
    and "Modules mm n = None"
    and "invoke_seq (BeginBlock_calls req ms) ctx = (rs, w1)"
  shows "mm_BeginBlock mm ctx req = Inl (NilPointerDereference, w1)"
proof -
  from assms(2,4) have "BeginBlock_loop mm ctx req pre EmptyTags = Inr (EmptyTags @ concat rs, w1)"
    unfolding BeginBlock_calls_def by (rule BeginBlock_loop_invoke)
  with assms(3) have "BeginBlock_loop mm ctx req (pre @ n # post) EmptyTags =
      Inl (NilPointerDereference, w1)"
    by (simp add: BeginBlock_loop_append)
  with assms(1) show ?thesis by (simp add: mm_BeginBlock_def)
qed

lemma mm_EndBlock_panic:
  assumes "OrderEndBlockers mm = pre @ n # post"
    and "map (Modules mm) pre = map Some ms"
    and "Modules mm n = None"
    and "invoke_seq (EndBlock_calls req ms) ctx = (rs, w1)"
  shows "mm_EndBlock mm ctx req = Inl (NilPointerDereference, w1)"
proof -
  from assms(2,4) have "EndBlock_loop mm ctx req pre [] EmptyTags =
      Inr ((if filter (\<lambda>r. r \<noteq> []) (map fst rs) = [] then []
            else last_nonempty (map fst rs), EmptyTags @ concat (map snd rs)), w1)"
    unfolding EndBlock_calls_def by (rule EndBlock_loop_invoke)
  with assms(3) have "EndBlock_loop mm ctx req (pre @ n # post) [] EmptyTags =
      Inl (NilPointerDereference, w1)"
    by (simp add: EndBlock_loop_append)
  with assms(1) show ?thesis by (simp add: mm_EndBlock_def)
qed

lemma mm_ExportGenesis_panic:
  assumes "OrderExportGenesis mm = pre @ n # post"
    and "map (Modules mm) pre = map Some ms"
    and "Modules mm n = None"
    and "invoke_seq (ExportGenesis_calls ms) ctx = (rs, w1)"
  shows "mm_ExportGenesis mm ctx = Inl (NilPointerDereference, w1)"
proof -
  from assms(2,4) have "ExportGenesis_loop mm ctx pre Map.empty =
      Inr (foldl (\<lambda>d (n, r). d(n \<mapsto> r)) Map.empty (zip pre rs), w1)"
    unfolding ExportGenesis_calls_def by (rule ExportGenesis_loop_invoke)
  with assms(3) have "ExportGenesis_loop mm ctx (pre @ n # post) Map.empty =
      Inl (NilPointerDereference, w1)"
    by (simp add: ExportGenesis_loop_append)
  with assms(1) show ?thesis by (simp add: mm_ExportGenesis_def)
qed

lemma mm_InitGenesis_panic:
  assumes "OrderInitGenesis mm = pre @ n # post"
    and "map (Modules mm) (with_genesis g pre) = map Some ms"
    and "Modules mm n = None"
    and "map_index g n \<noteq> None"
    and "invoke_seq (InitGenesis_calls g (with_genesis g pre) ms) ctx = (rs, w1)"
  shows "mm_InitGenesis mm ctx g = Inl (NilPointerDereference, w1)"
proof -
  from assms(2,5) have "InitGenesis_loop mm ctx g pre [] =
      Inr (if filter (\<lambda>r. r \<noteq> []) rs = [] then [] else last_nonempty rs, w1)"
    unfolding InitGenesis_calls_def with_genesis_def by (rule InitGenesis_loop_invoke)
  moreover from assms(3,4) have "\<And>u. InitGenesis_loop mm w1 g (n # post) u =
      Inl (NilPointerDereference, w1)"
    by (cases "map_index g n") simp_all
  ultimately have "InitGenesis_loop mm ctx g (pre @ n # post) [] = Inl (NilPointerDereference, w1)"
    by (simp add: InitGenesis_loop_append)
  with assms(1) show ?thesis by (simp add: mm_InitGenesis_def)
qed

lemma mm_InitGenesis_skip:
  assumes "OrderInitGenesis mm = pre @ n # post" and "map_index g n = None"
  shows "mm_InitGenesis mm ctx g = mm_InitGenesis (SetOrderInitGenesis mm (pre @ post)) ctx g"
proof -
  have same: "\<And>c names u. InitGenesis_loop (SetOrderInitGenesis mm (pre @ post)) c g names u =
      InitGenesis_loop mm c g names u"
    by (rule InitGenesis_loop_cong) (simp add: SetOrderInitGenesis_def)
  from assms(2) have "InitGenesis_loop mm ctx g (pre @ n # post) [] =
      InitGenesis_loop mm ctx g (pre @ post) []"
    by (simp add: InitGenesis_loop_append split: sum.splits prod.splits)
  with assms(1) show ?thesis
    by (simp add: mm_InitGenesis_def same) (simp add: SetOrderInitGenesis_def)
qed

lemma omitted_never_invoked:
  "k \<notin> set (OrderBeginBlockers mm) \<Longrightarrow>
     mm_BeginBlock (mm\<lparr>Modules := (Modules mm)(k := x)\<rparr>) ctx rb = mm_BeginBlock mm ctx rb"
  "k \<notin> set (OrderEndBlockers mm) \<Longrightarrow>
     mm_EndBlock (mm\<lparr>Modules := (Modules mm)(k := x)\<rparr>) ctx re = mm_EndBlock mm ctx re"
  "k \<notin> set (OrderExportGenesis mm) \<Longrightarrow>
     mm_ExportGenesis (mm\<lparr>Modules := (Modules mm)(k := x)\<rparr>) ctx = mm_ExportGenesis mm ctx"
  "k \<notin> set (OrderInitGenesis mm) \<Longrightarrow>
     mm_InitGenesis (mm\<lparr>Modules := (Modules mm)(k := x)\<rparr>) ctx g = mm_InitGenesis mm ctx g"
proof -
  assume "k \<notin> set (OrderBeginBlockers mm)"
  then have "BeginBlock_loop (mm\<lparr>Modules := (Modules mm)(k := x)\<rparr>) ctx rb
      (OrderBeginBlockers mm) EmptyTags = BeginBlock_loop mm ctx rb (OrderBeginBlockers mm) EmptyTags"
    by (intro BeginBlock_loop_cong) auto
  then show "mm_BeginBlock (mm\<lparr>Modules := (Modules mm)(k := x)\<rparr>) ctx rb = mm_BeginBlock mm ctx rb"
    by (simp add: mm_BeginBlock_def)
next
  assume "k \<notin> set (OrderEndBlockers mm)"
  then have "EndBlock_loop (mm\<lparr>Modules := (Modules mm)(k := x)\<rparr>) ctx re
      (OrderEndBlockers mm) [] EmptyTags = EndBlock_loop mm ctx re (OrderEndBlockers mm) [] EmptyTags"
    by (intro EndBlock_loop_cong) auto
  then show "mm_EndBlock (mm\<lparr>Modules := (Modules mm)(k := x)\<rparr>) ctx re = mm_EndBlock mm ctx re"
    by (simp add: mm_EndBlock_def)
next
  assume "k \<notin> set (OrderExportGenesis mm)"
  then have "ExportGenesis_loop (mm\<lparr>Modules := (Modules mm)(k := x)\<rparr>) ctx
      (OrderExportGenesis mm) Map.empty = ExportGenesis_loop mm ctx (OrderExportGenesis mm) Map.empty"
    by (intro ExportGenesis_loop_cong) auto
  then show "mm_ExportGenesis (mm\<lparr>Modules := (Modules mm)(k := x)\<rparr>) ctx = mm_ExportGenesis mm ctx"
    by (simp add: mm_ExportGenesis_def)
next
  assume "k \<notin> set (OrderInitGenesis mm)"
  then have "InitGenesis_loop (mm\<lparr>Modules := (Modules mm)(k := x)\<rparr>) ctx g
      (OrderInitGenesis mm) [] = InitGenesis_loop mm ctx g (OrderInitGenesis mm) []"
    by (intro InitGenesis_loop_cong) auto
  then show "mm_InitGenesis (mm\<lparr>Modules := (Modules mm)(k := x)\<rparr>) ctx g = mm_InitGenesis mm ctx g"
    by (simp add: mm_InitGenesis_def)
qed

text \<open>
  C9. For every manager, a name \<open>n\<close> of a lifecycle ordering that is no key of the module
  map makes the call panic with the nil dereference when the iteration comes to it:
  with the names \<open>pre\<close> before it standing for the modules \<open>ms\<close>, \<^verbatim>\<open>BeginBlock\<close>,
  \<^verbatim>\<open>EndBlock\<close> and \<^verbatim>\<open>ExportGenesis\<close> panic in the state that the calls of \<open>ms\<close> left, and
  so does \<^verbatim>\<open>InitGenesis\<close> when the genesis entry of \<open>n\<close> is not nil (there the modules
  invoked before are those of \<open>pre\<close> with an entry). When the genesis entry of \<open>n\<close> is nil
  or absent, \<^verbatim>\<open>InitGenesis\<close> skips \<open>n\<close> first, key or not: the call is the one without
  \<open>n\<close> in the ordering. And a name \<open>k\<close> that is not in the ordering of a lifecycle point
  is not invoked there: the call is the same whatever the map holds under \<open>k\<close>.
\<close>

theorem unknown_name_panics_and_omitted_module_is_not_invoked:
  "(OrderBeginBlockers mm = pre @ n # post \<longrightarrow> map (Modules mm) pre = map Some ms \<longrightarrow>
    Modules mm n = None \<longrightarrow> invoke_seq (BeginBlock_calls rb ms) ctx = (rsB, wB) \<longrightarrow>
    mm_BeginBlock mm ctx rb = Inl (NilPointerDereference, wB)) \<and>
   (OrderEndBlockers mm = pre @ n # post \<longrightarrow> map (Modules mm) pre = map Some ms \<longrightarrow>
    Modules mm n = None \<longrightarrow> invoke_seq (EndBlock_calls re ms) ctx = (rsE, wE) \<longrightarrow>
    mm_EndBlock mm ctx re = Inl (NilPointerDereference, wE)) \<and>
   (OrderExportGenesis mm = pre @ n # post \<longrightarrow> map (Modules mm) pre = map Some ms \<longrightarrow>
    Modules mm n = None \<longrightarrow> invoke_seq (ExportGenesis_calls ms) ctx = (rsX, wX) \<longrightarrow>
    mm_ExportGenesis mm ctx = Inl (NilPointerDereference, wX)) \<and>
   (OrderInitGenesis mm = pre @ n # post \<longrightarrow>
    map (Modules mm) (with_genesis g pre) = map Some msI \<longrightarrow>
    Modules mm n = None \<longrightarrow> map_index g n \<noteq> None \<longrightarrow>
    invoke_seq (InitGenesis_calls g (with_genesis g pre) msI) ctx = (rsI, wI) \<longrightarrow>
    mm_InitGenesis mm ctx g = Inl (NilPointerDereference, wI)) \<and>
   (OrderInitGenesis mm = pre @ n # post \<longrightarrow> map_index g' n = None \<longrightarrow>
    mm_InitGenesis mm ctx g' = mm_InitGenesis (SetOrderInitGenesis mm (pre @ post)) ctx g') \<and>
   (k \<notin> set (OrderBeginBlockers mm) \<longrightarrow>
    mm_BeginBlock (mm\<lparr>Modules := (Modules mm)(k := x)\<rparr>) ctx rb = mm_BeginBlock mm ctx rb) \<and>
   (k \<notin> set (OrderEndBlockers mm) \<longrightarrow>
    mm_EndBlock (mm\<lparr>Modules := (Modules mm)(k := x)\<rparr>) ctx re = mm_EndBlock mm ctx re) \<and>
   (k \<notin> set (OrderExportGenesis mm) \<longrightarrow>
    mm_ExportGenesis (mm\<lparr>Modules := (Modules mm)(k := x)\<rparr>) ctx = mm_ExportGenesis mm ctx) \<and>
   (k \<notin> set (OrderInitGenesis mm) \<longrightarrow>
    mm_InitGenesis (mm\<lparr>Modules := (Modules mm)(k := x)\<rparr>) ctx g = mm_InitGenesis mm ctx g)"
  using mm_BeginBlock_panic [of mm pre n post ms rb ctx rsB wB]
    mm_EndBlock_panic [of mm pre n post ms re ctx rsE wE]
    mm_ExportGenesis_panic [of mm pre n post ms ctx rsX wX]
    mm_InitGenesis_panic [of mm pre n post g msI ctx rsI wI]
    mm_InitGenesis_skip [of mm pre n post g' ctx]
    omitted_never_invoked [of k mm x ctx]
  by blast

text \<open>
  In \<open>mmGhost\<close> every ordering is \<open>[a, ghost, c]\<close> and \<open>ghost\<close> is no key of the map. The
  four calls invoke \<open>modA\<close> and panic; \<^verbatim>\<open>InitGenesis\<close> with no entry for \<open>ghost\<close> returns.
  Putting \<open>modB\<close> in the map under \<open>b\<close>, a name of no ordering, changes no call.
\<close>

lemma mmGhost_fields:
  "Modules mmGhost = [''a'' \<mapsto> modA, ''c'' \<mapsto> modC]"
  "OrderInitGenesis mmGhost = [''a''] @ ''ghost'' # [''c'']"
  "OrderExportGenesis mmGhost = [''a''] @ ''ghost'' # [''c'']"
  "OrderBeginBlockers mmGhost = [''a''] @ ''ghost'' # [''c'']"
  "OrderEndBlockers mmGhost = [''a''] @ ''ghost'' # [''c'']"
  by (simp_all add: mmGhost_def SetOrderInitGenesis_def SetOrderExportGenesis_def
      SetOrderBeginBlockers_def SetOrderEndBlockers_def NewModuleManager_def
      modA_def modC_def spy_simps)

theorem unknown_name_panics_and_omitted_module_is_not_invoked_witness:
  "mm_BeginBlock mmGhost [] () = Inl (NilPointerDereference, [(''A'', ''BeginBlock'', None)]) \<and>
   mm_EndBlock mmGhost [] () = Inl (NilPointerDereference, [(''A'', ''EndBlock'', None)]) \<and>
   mm_ExportGenesis mmGhost [] = Inl (NilPointerDereference, [(''A'', ''ExportGenesis'', None)]) \<and>
   mm_InitGenesis mmGhost [] genesisAG =
     Inl (NilPointerDereference, [(''A'', ''InitGenesis'', Some ''payloadA'')]) \<and>
   mm_InitGenesis mmGhost [] genesisAC =
     mm_InitGenesis (SetOrderInitGenesis mmGhost ([''a''] @ [''c''])) [] genesisAC \<and>
   mm_InitGenesis mmGhost [] genesisAC =
     Inr (\<lparr>Validators = [(''val2'', 5)]\<rparr>,
          [(''A'', ''InitGenesis'', Some ''payloadA''), (''C'', ''InitGenesis'', Some ''payloadC'')]) \<and>
   mm_BeginBlock (mmGhost\<lparr>Modules := (Modules mmGhost)(''b'' := Some modB)\<rparr>) [] () =
     mm_BeginBlock mmGhost [] () \<and>
   mm_EndBlock (mmGhost\<lparr>Modules := (Modules mmGhost)(''b'' := Some modB)\<rparr>) [] () =
     mm_EndBlock mmGhost [] () \<and>
   mm_ExportGenesis (mmGhost\<lparr>Modules := (Modules mmGhost)(''b'' := Some modB)\<rparr>) [] =
     mm_ExportGenesis mmGhost [] \<and>
   mm_InitGenesis (mmGhost\<lparr>Modules := (Modules mmGhost)(''b'' := Some modB)\<rparr>) [] genesisAG =
     mm_InitGenesis mmGhost [] genesisAG"
proof -
  note f = mmGhost_fields
  have pre: "map (Modules mmGhost) [''a''] = map Some [modA]" by (simp add: f)
  have n: "Modules mmGhost ''ghost'' = None" by (simp add: f)
  have b: "invoke_seq (BeginBlock_calls () [modA]) [] =
      ([[(''action'', ''a'')]], [(''A'', ''BeginBlock'', None)])"
    by (simp add: BeginBlock_calls_def modA_def spy_simps)
  have e: "invoke_seq (EndBlock_calls () [modA]) [] =
      ([([(''val1'', 10)], [(''action'', ''a'')])], [(''A'', ''EndBlock'', None)])"
    by (simp add: EndBlock_calls_def modA_def spy_simps)
  have x: "invoke_seq (ExportGenesis_calls [modA]) [] =
      ([Some ''A''], [(''A'', ''ExportGenesis'', None)])"
    by (simp add: ExportGenesis_calls_def modA_def spy_simps)
  have preI: "map (Modules mmGhost) (with_genesis genesisAG [''a'']) = map Some [modA]"
    by (simp add: f with_genesis_def genesisAG_def map_index_def)
  have gn: "map_index genesisAG ''ghost'' \<noteq> None"
    by (simp add: genesisAG_def map_index_def)
  have i: "invoke_seq (InitGenesis_calls genesisAG (with_genesis genesisAG [''a'']) [modA]) [] =
      ([[(''val1'', 10)]], [(''A'', ''InitGenesis'', Some ''payloadA'')])"
    by (simp add: InitGenesis_calls_def with_genesis_def genesisAG_def map_index_def
        modA_def spy_simps)
  have gn': "map_index genesisAC ''ghost'' = None"
    by (simp add: genesisAC_def map_index_def)
  have k: "''b'' \<notin> set (OrderBeginBlockers mmGhost)" "''b'' \<notin> set (OrderEndBlockers mmGhost)"
    "''b'' \<notin> set (OrderExportGenesis mmGhost)" "''b'' \<notin> set (OrderInitGenesis mmGhost)"
    by (simp_all add: f)
  have r: "mm_InitGenesis (SetOrderInitGenesis mmGhost ([''a''] @ [''c''])) [] genesisAC =
     Inr (\<lparr>Validators = [(''val2'', 5)]\<rparr>,
          [(''A'', ''InitGenesis'', Some ''payloadA''), (''C'', ''InitGenesis'', Some ''payloadC'')])"
    by (simp add: mm_InitGenesis_def SetOrderInitGenesis_def f genesisAC_def map_index_def
        modA_def modC_def spy_simps)
  from unknown_name_panics_and_omitted_module_is_not_invoked
    [where mm = mmGhost and pre = "[''a'']" and n = "''ghost''" and post = "[''c'']"
       and ms = "[modA]" and rb = "()" and re = "()" and ctx = "[]"
       and rsB = "[[(''action'', ''a'')]]" and wB = "[(''A'', ''BeginBlock'', None)]"
       and rsE = "[([(''val1'', 10)], [(''action'', ''a'')])]"
       and wE = "[(''A'', ''EndBlock'', None)]"
       and rsX = "[Some ''A'']" and wX = "[(''A'', ''ExportGenesis'', None)]"
       and g = genesisAG and msI = "[modA]" and rsI = "[[(''val1'', 10)]]"
       and wI = "[(''A'', ''InitGenesis'', Some ''payloadA'')]"
       and g' = genesisAC and k = "''b''" and x = "Some modB"]
    f(2-5) pre n b e x preI gn i gn' k r
  show ?thesis by metis
qed

subsection \<open>Modules that share a name\<close>

text \<open>
  What \<^verbatim>\<open>NewModuleManager\<close> stores: under a name, the last module of the list that has
  it; in each ordering, the names of the list, one per module.
\<close>

lemma NewModuleManager_fields:
  "Modules (NewModuleManager modules) n =
     (if filter (\<lambda>m. Name m = n) modules = [] then None
      else Some (last (filter (\<lambda>m. Name m = n) modules)))"
  "OrderInitGenesis (NewModuleManager modules) = map Name modules"
  "OrderExportGenesis (NewModuleManager modules) = map Name modules"
  "OrderBeginBlockers (NewModuleManager modules) = map Name modules"
  "OrderEndBlockers (NewModuleManager modules) = map Name modules"
proof -
  obtain moduleMap modulesStr where
    l: "NewModuleManager_loop modules Map.empty [] = (moduleMap, modulesStr)"
    by (cases "NewModuleManager_loop modules Map.empty []")
  from l NewModuleManager_loop_names [of modules Map.empty "[]"]
  have s: "modulesStr = map Name modules" by simp
  from l NewModuleManager_loop_map [of modules Map.empty "[]" n]
  have m: "moduleMap n = (if filter (\<lambda>m. Name m = n) modules = [] then None
      else Some (last (filter (\<lambda>m. Name m = n) modules)))" by simp
  from l s m show
    "Modules (NewModuleManager modules) n =
       (if filter (\<lambda>m. Name m = n) modules = [] then None
        else Some (last (filter (\<lambda>m. Name m = n) modules)))"
    "OrderInitGenesis (NewModuleManager modules) = map Name modules"
    "OrderExportGenesis (NewModuleManager modules) = map Name modules"
    "OrderBeginBlockers (NewModuleManager modules) = map Name modules"
    "OrderEndBlockers (NewModuleManager modules) = map Name modules"
    by (simp_all add: NewModuleManager_def)
qed

lemma NewModuleManager_later_registered:
  "m \<in> set modules \<Longrightarrow>
   Modules (NewModuleManager modules) (Name m) = Some (later_registered modules m)"
  by (auto simp add: NewModuleManager_fields later_registered_def filter_empty_conv)

lemma NewModuleManager_resolves:
  "set ms \<subseteq> set modules \<Longrightarrow>
   map (Modules (NewModuleManager modules)) (map Name ms) =
     map Some (map (later_registered modules) ms)"
  by (induction ms) (simp_all add: NewModuleManager_later_registered)

lemma count_list_names:
  "count_list (map Name modules) n = length (filter (\<lambda>m. Name m = n) modules)"
  by (induction modules) simp_all

lemma with_genesis_names:
  "with_genesis g (map Name modules) =
     map Name (filter (\<lambda>m. map_index g (Name m) \<noteq> None) modules)"
  by (simp add: with_genesis_def filter_map comp_def)

lemma later_registered_of_duplicate:
  assumes "modules = xs @ m1 # ys @ m2 # zs" and "Name m1 = Name m2"
    and "\<forall>z\<in>set zs. Name z \<noteq> Name m2"
  shows "later_registered modules m1 = m2" and "later_registered modules m2 = m2"
proof -
  from assms(3) have "filter (\<lambda>m'. Name m' = Name m2) zs = []"
    by (simp add: filter_empty_conv)
  with assms(1,2) show "later_registered modules m1 = m2" "later_registered modules m2 = m2"
    by (simp_all add: later_registered_def)
qed

lemma mm_BeginBlock_invoke:
  assumes "map (Modules mm) (OrderBeginBlockers mm) = map Some ms"
    and "invoke_seq (BeginBlock_calls req ms) ctx = (rs, ctx')"
  shows "mm_BeginBlock mm ctx req = Inr (\<lparr>BeginBlockTags = concat rs\<rparr>, ctx')"
proof -
  from assms have "BeginBlock_loop mm ctx req (OrderBeginBlockers mm) EmptyTags =
      Inr (EmptyTags @ concat rs, ctx')"
    unfolding BeginBlock_calls_def by (rule BeginBlock_loop_invoke)
  then show ?thesis by (simp add: mm_BeginBlock_def EmptyTags_def ToKVPairs_def)
qed

lemma mm_ExportGenesis_invoke:
  assumes "map (Modules mm) (OrderExportGenesis mm) = map Some ms"
    and "invoke_seq (ExportGenesis_calls ms) ctx = (rs, ctx')"
  shows "mm_ExportGenesis mm ctx = Inr (exported (OrderExportGenesis mm) rs, ctx')"
  using assms unfolding ExportGenesis_calls_def mm_ExportGenesis_def exported_def
  by (rule ExportGenesis_loop_invoke)

text \<open>
  C10. For every module list, \<^verbatim>\<open>NewModuleManager\<close> maps the name of each module \<open>m\<close> of
  the list to \<open>later_registered modules m\<close>, the last module of the list with that
  name; when two modules \<open>m1\<close> and \<open>m2\<close> of the list have the same name, \<open>m2\<close> after
  \<open>m1\<close> and no module of that name after \<open>m2\<close>, this is \<open>m2\<close> for both. Each of the four
  orderings has the name as many times as the list has modules of that name. So
  \<^verbatim>\<open>BeginBlock\<close>, \<^verbatim>\<open>EndBlock\<close> and \<^verbatim>\<open>ExportGenesis\<close> invoke, for each module of the list
  in turn, the later registered module of its name, and \<^verbatim>\<open>InitGenesis\<close> does so for the
  modules whose genesis entry is not nil: the later module is invoked once for each
  module of its name, and an earlier one is not invoked.
\<close>

theorem duplicate_name_invokes_later_registered_module:
  "(m \<in> set modules \<longrightarrow>
      Modules (NewModuleManager modules) (Name m) = Some (later_registered modules m)) \<and>
   (modules = xs @ m1 # ys @ m2 # zs \<longrightarrow> Name m1 = Name m2 \<longrightarrow>
    (\<forall>z\<in>set zs. Name z \<noteq> Name m2) \<longrightarrow>
      later_registered modules m1 = m2 \<and> later_registered modules m2 = m2) \<and>
   count_list (OrderInitGenesis (NewModuleManager modules)) n =
     length (filter (\<lambda>m. Name m = n) modules) \<and>
   count_list (OrderExportGenesis (NewModuleManager modules)) n =
     length (filter (\<lambda>m. Name m = n) modules) \<and>
   count_list (OrderBeginBlockers (NewModuleManager modules)) n =
     length (filter (\<lambda>m. Name m = n) modules) \<and>
   count_list (OrderEndBlockers (NewModuleManager modules)) n =
     length (filter (\<lambda>m. Name m = n) modules) \<and>
   (invoke_seq (BeginBlock_calls rb (map (later_registered modules) modules)) ctx = (rsB, wB) \<longrightarrow>
      mm_BeginBlock (NewModuleManager modules) ctx rb =
        Inr (\<lparr>BeginBlockTags = concat rsB\<rparr>, wB)) \<and>
   (invoke_seq (EndBlock_calls re (map (later_registered modules) modules)) ctx = (rsE, wE) \<longrightarrow>
      mm_EndBlock (NewModuleManager modules) ctx re =
        Inr (\<lparr>ValidatorUpdates = last_nonempty (map fst rsE),
              EndBlockTags = concat (map snd rsE)\<rparr>, wE)) \<and>
   (invoke_seq (ExportGenesis_calls (map (later_registered modules) modules)) ctx = (rsX, wX) \<longrightarrow>
      mm_ExportGenesis (NewModuleManager modules) ctx =
        Inr (exported (map Name modules) rsX, wX)) \<and>
   (invoke_seq
      (InitGenesis_calls g (with_genesis g (map Name modules))
         (map (later_registered modules)
            (filter (\<lambda>m. map_index g (Name m) \<noteq> None) modules))) ctx = (rsI, wI) \<longrightarrow>
      mm_InitGenesis (NewModuleManager modules) ctx g =
        Inr (\<lparr>Validators = last_nonempty rsI\<rparr>, wI))"
proof -
  let ?mm = "NewModuleManager modules"
  let ?ms = "map (later_registered modules) modules"
  note f = NewModuleManager_fields [of modules]
  have all: "map (Modules ?mm) (map Name modules) = map Some ?ms"
    by (rule NewModuleManager_resolves) simp
  have some: "map (Modules ?mm) (with_genesis g (OrderInitGenesis ?mm)) =
      map Some (map (later_registered modules)
        (filter (\<lambda>m. map_index g (Name m) \<noteq> None) modules))"
    unfolding f(2) with_genesis_names by (rule NewModuleManager_resolves) auto
  have a: "m \<in> set modules \<longrightarrow> Modules ?mm (Name m) = Some (later_registered modules m)"
    by (simp add: NewModuleManager_later_registered)
  have d: "modules = xs @ m1 # ys @ m2 # zs \<longrightarrow> Name m1 = Name m2 \<longrightarrow>
      (\<forall>z\<in>set zs. Name z \<noteq> Name m2) \<longrightarrow>
      later_registered modules m1 = m2 \<and> later_registered modules m2 = m2"
    using later_registered_of_duplicate [of modules xs m1 ys m2 zs] by blast
  have c: "count_list (OrderInitGenesis ?mm) n = length (filter (\<lambda>m. Name m = n) modules)"
    "count_list (OrderExportGenesis ?mm) n = length (filter (\<lambda>m. Name m = n) modules)"
    "count_list (OrderBeginBlockers ?mm) n = length (filter (\<lambda>m. Name m = n) modules)"
    "count_list (OrderEndBlockers ?mm) n = length (filter (\<lambda>m. Name m = n) modules)"
    by (simp_all add: f(2-5) count_list_names)
  have b: "invoke_seq (BeginBlock_calls rb ?ms) ctx = (rsB, wB) \<longrightarrow>
      mm_BeginBlock ?mm ctx rb = Inr (\<lparr>BeginBlockTags = concat rsB\<rparr>, wB)"
    using mm_BeginBlock_invoke [of ?mm ?ms rb ctx rsB wB] all by (simp add: f(2-5))
  have e: "invoke_seq (EndBlock_calls re ?ms) ctx = (rsE, wE) \<longrightarrow>
      mm_EndBlock ?mm ctx re =
        Inr (\<lparr>ValidatorUpdates = last_nonempty (map fst rsE),
              EndBlockTags = concat (map snd rsE)\<rparr>, wE)"
    using mm_EndBlock_invoke [of ?mm ?ms re ctx rsE wE] all by (simp add: f(2-5))
  have x: "invoke_seq (ExportGenesis_calls ?ms) ctx = (rsX, wX) \<longrightarrow>
      mm_ExportGenesis ?mm ctx = Inr (exported (map Name modules) rsX, wX)"
    using mm_ExportGenesis_invoke [of ?mm ?ms ctx rsX wX] all by (simp add: f(2-5))
  have i: "invoke_seq
      (InitGenesis_calls g (with_genesis g (map Name modules))
         (map (later_registered modules)
            (filter (\<lambda>m. map_index g (Name m) \<noteq> None) modules))) ctx = (rsI, wI) \<longrightarrow>
      mm_InitGenesis ?mm ctx g = Inr (\<lparr>Validators = last_nonempty rsI\<rparr>, wI)"
    using mm_InitGenesis_invoke [OF some, of ctx rsI wI] by (simp add: f(2))
  from a d c b e x i show ?thesis by blast
qed

text \<open>
  \<open>modA\<close> and \<open>modA2\<close> share the name \<open>a\<close>. The manager of \<open>[modA, modB, modA2]\<close> holds
  \<open>modA2\<close> under \<open>a\<close>; every call invokes \<open>modA2\<close> twice and \<open>modA\<close> never.
\<close>

lemma example_names:
  "Name modA = ''a''" "Name modB = ''b''" "Name modC = ''c''" "Name modA2 = ''a''"
  by (simp_all add: modA_def modB_def modC_def modA2_def spy_simps)

theorem duplicate_name_invokes_later_registered_module_witness:
  "Modules (NewModuleManager [modA, modB, modA2]) ''a'' = Some modA2 \<and>
   later_registered [modA, modB, modA2] modA = modA2 \<and>
   count_list (OrderBeginBlockers (NewModuleManager [modA, modB, modA2])) ''a'' = 2 \<and>
   mm_BeginBlock (NewModuleManager [modA, modB, modA2]) [] () =
     Inr (\<lparr>BeginBlockTags = [(''action'', ''a2''), (''action'', ''a''), (''action'', ''a2'')]\<rparr>,
          [(''A2'', ''BeginBlock'', None), (''B'', ''BeginBlock'', None),
           (''A2'', ''BeginBlock'', None)]) \<and>
   mm_EndBlock (NewModuleManager [modA, modB, modA2]) [] () =
     Inr (\<lparr>ValidatorUpdates = [(''val3'', 7)],
           EndBlockTags = [(''action'', ''a2''), (''action'', ''a''), (''action'', ''a2'')]\<rparr>,
          [(''A2'', ''EndBlock'', None), (''B'', ''EndBlock'', None),
           (''A2'', ''EndBlock'', None)]) \<and>
   mm_ExportGenesis (NewModuleManager [modA, modB, modA2]) [] =
     Inr (exported [''a'', ''b'', ''a''] [Some ''A2'', Some ''B'', Some ''A2''],
          [(''A2'', ''ExportGenesis'', None), (''B'', ''ExportGenesis'', None),
           (''A2'', ''ExportGenesis'', None)]) \<and>
   mm_InitGenesis (NewModuleManager [modA, modB, modA2]) [] genesisAC =
     Inr (\<lparr>Validators = [(''val3'', 7)]\<rparr>,
          [(''A2'', ''InitGenesis'', Some ''payloadA''),
           (''A2'', ''InitGenesis'', Some ''payloadA'')])"
proof -
  let ?ms = "[modA, modB, modA2]"
  let ?rsB = "[[(''action'', ''a2'')], [(''action'', ''a'')], [(''action'', ''a2'')]]"
  let ?wB = "[(''A2'', ''BeginBlock'', None), (''B'', ''BeginBlock'', None),
      (''A2'', ''BeginBlock'', None)]"
  let ?rsE = "[([(''val3'', 7)], [(''action'', ''a2'')]), ([], [(''action'', ''a'')]),
      ([(''val3'', 7)], [(''action'', ''a2'')])] :: ((string \<times> int) list \<times> Tags) list"
  let ?wE = "[(''A2'', ''EndBlock'', None), (''B'', ''EndBlock'', None),
      (''A2'', ''EndBlock'', None)]"
  let ?rsX = "[Some ''A2'', Some ''B'', Some ''A2'']"
  let ?wX = "[(''A2'', ''ExportGenesis'', None), (''B'', ''ExportGenesis'', None),
      (''A2'', ''ExportGenesis'', None)]"
  let ?rsI = "[[(''val3'', 7)], [(''val3'', 7)]] :: (string \<times> int) list list"
  let ?wI = "[(''A2'', ''InitGenesis'', Some ''payloadA''),
      (''A2'', ''InitGenesis'', Some ''payloadA'')]"
  have lr: "map (later_registered ?ms) ?ms = [modA2, modB, modA2]"
    by (simp add: later_registered_def example_names)
  have fl: "filter (\<lambda>m. map_index genesisAC (Name m) \<noteq> None) ?ms = [modA, modA2]"
    by (simp add: example_names genesisAC_def map_index_def)
  have lrI: "map (later_registered ?ms) [modA, modA2] = [modA2, modA2]"
    by (simp add: later_registered_def example_names)
  have wg: "with_genesis genesisAC (map Name ?ms) = [''a'', ''a'']"
    by (simp add: with_genesis_def example_names genesisAC_def map_index_def)
  have h1: "modA \<in> set ?ms" by simp
  have h2: "?ms = [] @ modA # [modB] @ modA2 # []" "Name modA = Name modA2"
    "\<forall>z\<in>set []. Name z \<noteq> Name modA2"
    by (simp_all add: example_names)
  have b: "invoke_seq (BeginBlock_calls () (map (later_registered ?ms) ?ms)) [] = (?rsB, ?wB)"
    unfolding lr by (simp add: BeginBlock_calls_def modA2_def modB_def spy_simps)
  have e: "invoke_seq (EndBlock_calls () (map (later_registered ?ms) ?ms)) [] = (?rsE, ?wE)"
    unfolding lr by (simp add: EndBlock_calls_def modA2_def modB_def spy_simps)
  have x: "invoke_seq (ExportGenesis_calls (map (later_registered ?ms) ?ms)) [] = (?rsX, ?wX)"
    unfolding lr by (simp add: ExportGenesis_calls_def modA2_def modB_def spy_simps)
  have i: "invoke_seq
      (InitGenesis_calls genesisAC (with_genesis genesisAC (map Name ?ms))
         (map (later_registered ?ms)
            (filter (\<lambda>m. map_index genesisAC (Name m) \<noteq> None) ?ms))) [] = (?rsI, ?wI)"
    unfolding fl lrI wg
    by (simp add: InitGenesis_calls_def modA2_def spy_simps genesisAC_def map_index_def)
  have v: "last_nonempty (map fst ?rsE) = [(''val3'', 7)]" "last_nonempty ?rsI = [(''val3'', 7)]"
    "concat ?rsB = [(''action'', ''a2''), (''action'', ''a''), (''action'', ''a2'')]"
    "concat (map snd ?rsE) = [(''action'', ''a2''), (''action'', ''a''), (''action'', ''a2'')]"
    "length (filter (\<lambda>m. Name m = ''a'') ?ms) = 2"
    "map Name ?ms = [''a'', ''b'', ''a'']"
    by (simp_all add: last_nonempty_def example_names)
  from duplicate_name_invokes_later_registered_module
    [where m = modA and modules = ?ms and xs = "[]" and ?m1.0 = modA and ys = "[modB]"
       and ?m2.0 = modA2 and zs = "[]" and n = "''a''" and rb = "()" and re = "()"
       and ctx = "[]" and rsB = ?rsB and wB = ?wB and rsE = ?rsE and wE = ?wE
       and rsX = ?rsX and wX = ?wX and g = genesisAC and rsI = ?rsI and wI = ?wI]
    h1 h2 b e x i
  have "Modules (NewModuleManager ?ms) (Name modA) = Some (later_registered ?ms modA) \<and>
      later_registered ?ms modA = modA2 \<and>
      count_list (OrderBeginBlockers (NewModuleManager ?ms)) ''a'' =
        length (filter (\<lambda>m. Name m = ''a'') ?ms) \<and>
      mm_BeginBlock (NewModuleManager ?ms) [] () = Inr (\<lparr>BeginBlockTags = concat ?rsB\<rparr>, ?wB) \<and>
      mm_EndBlock (NewModuleManager ?ms) [] () =
        Inr (\<lparr>ValidatorUpdates = last_nonempty (map fst ?rsE),
              EndBlockTags = concat (map snd ?rsE)\<rparr>, ?wE) \<and>
      mm_ExportGenesis (NewModuleManager ?ms) [] = Inr (exported (map Name ?ms) ?rsX, ?wX) \<and>
      mm_InitGenesis (NewModuleManager ?ms) [] genesisAC =
        Inr (\<lparr>Validators = last_nonempty ?rsI\<rparr>, ?wI)"
    by blast
  then show ?thesis unfolding v by (simp add: example_names)
qed

end
